theory Spec2Isabelle
  imports Main "HOL-Library.Word"
begin

unbundle bit_operations_syntax

section \<open>Byte sources\<close>

text \<open>
  The calculators work on a Python binary file object (\<^verbatim>\<open>io.BufferedIOBase\<close>): a
  byte string with a cursor. A read past the end returns fewer bytes (none at the end), a
  seek may place the cursor beyond the end, and a seek to a negative position raises.
  Python integers are unbounded, so offsets and decoded field values are natural numbers
  without wrap-around; a difference that may be negative is taken over \<open>int\<close>.
\<close>

type_synonym byte = "8 word"

record byte_source =
  content :: "byte list"
  position :: nat

datatype error =
  InvalidInputFormat
  | BadGzipFile
  | ZlibError
  | EOFError
  | TruncatedHeader
  | AttributeError
  | OSError
  | PEBSizeNotFound
  | StatisticsError

record valid_chunk =
  start_offset :: nat
  end_offset :: nat

definition tell :: "byte_source \<Rightarrow> nat" where
  "tell f = position f"

definition read :: "nat \<Rightarrow> byte_source \<Rightarrow> byte list \<times> byte_source" where
  "read n f =
     (let bs = take n (drop (position f) (content f))
      in (bs, f\<lparr>position := position f + length bs\<rparr>))"

definition seek :: "nat \<Rightarrow> byte_source \<Rightarrow> byte_source" where
  "seek p f = f\<lparr>position := p\<rparr>"

definition seek_cur :: "int \<Rightarrow> byte_source \<Rightarrow> error + byte_source" where
  "seek_cur d f =
     (if int (position f) + d < 0 then Inl OSError
      else Inr (f\<lparr>position := nat (int (position f) + d)\<rparr>))"

definition seek_end :: "byte_source \<Rightarrow> byte_source" where
  "seek_end f = f\<lparr>position := length (content f)\<rparr>"

section \<open>StructView: fixed-layout headers\<close>

text \<open>
  Modelled from the spec: the struct parser behind \<^verbatim>\<open>StructHandler.parse_header\<close>
  (\<^verbatim>\<open>models.py\<close> and the C-definition parser it drives) is missing from the sources.
  Spec 4.1: given a source positioned at \<open>o\<close> and a static layout descriptor, an ordered list
  of \<open>(name, width_bytes, kind)\<close> with a declared byte order, read exactly the sum of the
  widths starting at \<open>o\<close> and produce a header record, an ordered mapping from field name to
  typed value; fail with \<open>TruncatedHeader\<close> if fewer bytes are available; leave the position
  immediately after the consumed bytes. Unsigned integers honour the byte order, byte and
  character arrays are returned verbatim. The layouts below transcribe the
  \<^verbatim>\<open>C_DEFINITIONS\<close> of the handlers; a nested struct is flattened with dotted names.
\<close>

datatype endian = LITTLE | BIG

datatype kind = UInt | ByteArray | CharArray

type_synonym layout = "(string \<times> nat \<times> kind) list"

datatype field_value = IntVal nat | ArrayVal "byte list"

record header_record =
  field_values :: "(string \<times> field_value) list"
  size_bytes :: nat

fun le_uint :: "byte list \<Rightarrow> nat" where
  "le_uint [] = 0"
| "le_uint (b # bs) = unat b + 256 * le_uint bs"

definition decode_uint :: "endian \<Rightarrow> byte list \<Rightarrow> nat" where
  "decode_uint e bs = (case e of LITTLE \<Rightarrow> le_uint bs | BIG \<Rightarrow> le_uint (rev bs))"

definition decode_field :: "endian \<Rightarrow> kind \<Rightarrow> byte list \<Rightarrow> field_value" where
  "decode_field e k bs =
     (case k of UInt \<Rightarrow> IntVal (decode_uint e bs)
      | ByteArray \<Rightarrow> ArrayVal bs
      | CharArray \<Rightarrow> ArrayVal bs)"

fun decode_fields :: "endian \<Rightarrow> layout \<Rightarrow> byte list \<Rightarrow> (string \<times> field_value) list" where
  "decode_fields e [] bs = []"
| "decode_fields e ((name, w, k) # l) bs =
     (name, decode_field e k (take w bs)) # decode_fields e l (drop w bs)"

definition layout_size :: "layout \<Rightarrow> nat" where
  "layout_size l = sum_list (map (\<lambda>(name, w, k). w) l)"

definition parse_header ::
  "layout \<Rightarrow> endian \<Rightarrow> byte_source \<Rightarrow> error + (header_record \<times> byte_source)" where
  "parse_header l e f =
     (case read (layout_size l) f of
        (bs, f') \<Rightarrow>
          if length bs < layout_size l then Inl TruncatedHeader
          else Inr (\<lparr>field_values = decode_fields e l bs, size_bytes = layout_size l\<rparr>, f'))"

text \<open>\<^verbatim>\<open>header.name\<close> for an integer field, and \<^verbatim>\<open>len(header)\<close>.\<close>

definition uint_field :: "header_record \<Rightarrow> string \<Rightarrow> nat option" where
  "uint_field h name =
     (case map_of (field_values h) name of Some (IntVal n) \<Rightarrow> Some n | _ \<Rightarrow> None)"

definition len_header :: "header_record \<Rightarrow> nat" where
  "len_header h = size_bytes h"

section \<open>NTFS\<close>

definition ntfs_boot_t :: layout where
  "ntfs_boot_t =
    [(''jmp_ins'', 3, ByteArray),
     (''oem_id'', 8, CharArray),
     (''bytes_per_sector'', 2, UInt),
     (''sectors_per_clusters'', 1, UInt),
     (''unused1'', 7, ByteArray),
     (''media_descriptor'', 1, UInt),
     (''unused2'', 2, ByteArray),
     (''sectors_per_track'', 2, UInt),
     (''heads'', 2, UInt),
     (''hidden_sectors'', 4, UInt),
     (''unused3'', 4, ByteArray),
     (''unused4'', 4, ByteArray),
     (''total_sectors'', 8, UInt),
     (''mft_cluster_number'', 8, UInt),
     (''mft_mirror_cluster_number'', 8, UInt),
     (''record_size'', 1, UInt),
     (''unused5'', 3, ByteArray),
     (''index_size'', 1, UInt),
     (''unused6'', 3, ByteArray),
     (''serial_num'', 8, UInt),
     (''checksum'', 4, UInt),
     (''bootstrap_code'', 426, ByteArray),
     (''boot_magic'', 2, UInt)]"

text \<open>
  \<^verbatim>\<open>NTFSHandler.calculate_chunk\<close>. \<^verbatim>\<open>parse_header(file)\<close> uses the default byte
  order, little-endian. \<open>None\<close> is Python's \<^verbatim>\<open>return\<close> without a value.
\<close>

definition ntfs_calculate_chunk :: "byte_source \<Rightarrow> nat \<Rightarrow> error + valid_chunk option" where
  "ntfs_calculate_chunk file start =
     (case parse_header ntfs_boot_t LITTLE file of
        Inl e \<Rightarrow> Inl e
      | Inr (header, file1) \<Rightarrow>
          (case (uint_field header ''total_sectors'', uint_field header ''bytes_per_sector'') of
             (Some total_sectors, Some bytes_per_sector) \<Rightarrow>
               (let fsize = total_sectors * bytes_per_sector
                in if fsize = 0 then Inr None
                   else Inr (Some \<lparr>start_offset = start,
                                    end_offset = start + len_header header + fsize\<rparr>))
           | _ \<Rightarrow> Inl AttributeError))"

section \<open>LZH\<close>

definition lzh_default_header_t :: layout where
  "lzh_default_header_t =
    [(''header_size'', 1, UInt),
     (''header_checksum'', 1, UInt),
     (''method_id'', 5, CharArray),
     (''compressed_size'', 4, UInt),
     (''uncompressed_size'', 4, UInt),
     (''timestamp'', 4, UInt),
     (''fd_attribute'', 1, UInt),
     (''level_identifier'', 1, UInt)]"

definition PADDING_LEN :: nat where
  "PADDING_LEN = 2"

text \<open>
  The header size that \<^verbatim>\<open>LZHHandler.calculate_chunk\<close> works with, from the parsed
  \<^verbatim>\<open>level_identifier\<close>, \<^verbatim>\<open>header_size\<close> and \<^verbatim>\<open>header_checksum\<close>:
  \<^verbatim>\<open>header.header_size + (header.header_checksum << 8)\<close> at level 2,
  \<^verbatim>\<open>header.header_size + PADDING_LEN\<close> otherwise.
\<close>

definition lzh_header_size :: "nat \<Rightarrow> nat \<Rightarrow> nat \<Rightarrow> nat" where
  "lzh_header_size level_identifier header_size header_checksum =
     (if level_identifier = 2 then header_size + push_bit 8 header_checksum
      else header_size + PADDING_LEN)"

text \<open>
  \<^verbatim>\<open>LZHHandler.calculate_chunk\<close>. The end offset is measured from the cursor: the
  code seeks back over the header and forward by header size plus compressed size, then
  compares with the end of the file.
\<close>

definition lzh_calculate_chunk :: "byte_source \<Rightarrow> nat \<Rightarrow> error + valid_chunk option" where
  "lzh_calculate_chunk file start =
     (case parse_header lzh_default_header_t LITTLE file of
        Inl e \<Rightarrow> Inl e
      | Inr (header, file1) \<Rightarrow>
          (case (uint_field header ''level_identifier'', uint_field header ''header_size'',
                 uint_field header ''header_checksum'', uint_field header ''compressed_size'') of
             (Some level_identifier, Some hsize, Some checksum, Some compressed_size) \<Rightarrow>
               (let header_size = lzh_header_size level_identifier hsize checksum
                in case seek_cur (- int (len_header header)) file1 of
                     Inl e \<Rightarrow> Inl e
                   | Inr file2 \<Rightarrow>
                       (case seek_cur (int (header_size + compressed_size)) file2 of
                          Inl e \<Rightarrow> Inl e
                        | Inr file3 \<Rightarrow>
                            (let end_off = tell file3;
                                 file4 = seek_end file3;
                                 end_pos = tell file4;
                                 end_off' =
                                   (if int end_pos - int end_off = 1 then end_pos
                                    else end_off)
                             in Inr (Some \<lparr>start_offset = start, end_offset = end_off'\<rparr>))))
           | _ \<Rightarrow> Inl AttributeError))"

section \<open>UBIFS\<close>

definition ubifs_sb_node_t :: layout where
  "ubifs_sb_node_t =
    [(''ch.magic'', 4, UInt),
     (''ch.crc'', 4, UInt),
     (''ch.sqnum'', 8, UInt),
     (''ch.len'', 4, UInt),
     (''ch.node_type'', 1, UInt),
     (''ch.group_type'', 1, UInt),
     (''ch.padding'', 2, ByteArray),
     (''padding'', 2, ByteArray),
     (''key_hash'', 1, UInt),
     (''key_fmt'', 1, UInt),
     (''flags'', 4, UInt),
     (''min_io_size'', 4, UInt),
     (''leb_size'', 4, UInt),
     (''leb_cnt'', 4, UInt),
     (''max_leb_cnt'', 4, UInt),
     (''max_bud_bytes'', 8, UInt),
     (''log_lebs'', 4, UInt),
     (''lpt_lebs'', 4, UInt),
     (''orph_lebs'', 4, UInt),
     (''jhead_cnt'', 4, UInt),
     (''fanout'', 4, UInt),
     (''lsave_cnt'', 4, UInt),
     (''fmt_version'', 4, UInt),
     (''default_compr'', 2, UInt),
     (''padding1'', 2, ByteArray),
     (''rp_uid'', 4, UInt),
     (''rp_gid'', 4, UInt),
     (''rp_size'', 8, UInt),
     (''time_gran'', 4, UInt),
     (''uuid'', 16, ByteArray),
     (''ro_compat_version'', 4, UInt),
     (''hmac'', 64, ByteArray),
     (''hmac_wkm'', 64, ByteArray),
     (''hash_algo'', 2, UInt),
     (''hash_mst'', 64, ByteArray),
     (''padding2'', 3774, ByteArray)]"

definition BIG_ENDIAN_MAGIC :: nat where
  "BIG_ENDIAN_MAGIC = 0x06101831"

text \<open>
  Modelled from the spec: \<^verbatim>\<open>file_utils.get_endian\<close> is missing from the sources.
  Spec 4.6: the 4-byte magic appears either as the big-endian constant or as its
  byte-reversed little-endian counterpart; which one is determined from the bytes present
  at the candidate offset, and the matching interpretation is used for all later field
  decoding. The four bytes are looked at without moving the cursor. The spec names no
  third outcome: bytes that do not read as the constant in big-endian order are taken as
  the little-endian variant.
\<close>

definition get_endian :: "byte_source \<Rightarrow> nat \<Rightarrow> endian" where
  "get_endian file big_endian_magic =
     (case read 4 file of
        (magic_bytes, file1) \<Rightarrow>
          if length magic_bytes = 4 \<and> decode_uint BIG magic_bytes = big_endian_magic then BIG
          else LITTLE)"

text \<open>\<^verbatim>\<open>UBIFSHandler.calculate_chunk\<close>.\<close>

definition ubifs_calculate_chunk :: "byte_source \<Rightarrow> nat \<Rightarrow> error + valid_chunk option" where
  "ubifs_calculate_chunk file start =
     (let endian = get_endian file BIG_ENDIAN_MAGIC
      in case parse_header ubifs_sb_node_t endian file of
           Inl e \<Rightarrow> Inl e
         | Inr (sb_header, file1) \<Rightarrow>
             (case (uint_field sb_header ''leb_size'', uint_field sb_header ''leb_cnt'') of
                (Some leb_size, Some leb_cnt) \<Rightarrow>
                  (let ubifs_length = leb_size * leb_cnt
                   in Inr (Some \<lparr>start_offset = start, end_offset = start + ubifs_length\<rparr>))
              | _ \<Rightarrow> Inl AttributeError))"

section \<open>UBI\<close>

definition UBI_EC_HEADER :: "byte list" where
  "UBI_EC_HEADER = [0x55, 0x42, 0x49, 0x23]"

text \<open>
  Modelled from the spec: \<^verbatim>\<open>file_utils.iterate_patterns\<close> is missing from the
  sources. Spec 4.7: scan the source for every occurrence of the fixed 4-byte erase-block
  marker. The offsets come in increasing order.
\<close>

definition iterate_patterns :: "byte_source \<Rightarrow> byte list \<Rightarrow> nat list" where
  "iterate_patterns file pattern =
     filter (\<lambda>i. take (length pattern) (drop i (content file)) = pattern)
       [0 ..< length (content file)]"

text \<open>
  Modelled from the spec: \<^verbatim>\<open>iter_utils.get_intervals\<close> is missing from the sources.
  Spec 4.7: the distances between each occurrence and the next occurrence (sequential
  intervals, not all pairs); with fewer than two occurrences no interval can be formed.
  The offsets that \<open>iterate_patterns\<close> yields increase (\<open>iterate_patterns_increasing\<close>),
  so no difference of natural numbers is cut off at 0.
\<close>

fun get_intervals :: "nat list \<Rightarrow> nat list" where
  "get_intervals (value # next_value # values) =
     (next_value - value) # get_intervals (next_value # values)"
| "get_intervals values = []"

text \<open>
  Python's \<^verbatim>\<open>statistics.mode\<close>: the most common value of the data, the first one
  encountered among several equally common ones; \<^verbatim>\<open>StatisticsError\<close> on empty data.
\<close>

definition mode :: "nat list \<Rightarrow> nat option" where
  "mode xs =
     (case xs of [] \<Rightarrow> None
      | x # _ \<Rightarrow>
          Some (fold (\<lambda>y best. if count_list xs best < count_list xs y then y else best) xs x))"

text \<open>\<^verbatim>\<open>UBIHandler._guess_peb_size\<close>.\<close>

definition guess_peb_size :: "byte_source \<Rightarrow> error + nat" where
  "guess_peb_size file =
     (let all_ubi_eraseblock_offsets = iterate_patterns file UBI_EC_HEADER;
          offset_intervals = get_intervals all_ubi_eraseblock_offsets
      in if offset_intervals = [] then Inl PEBSizeNotFound
         else (case mode offset_intervals of
                 None \<Rightarrow> Inl StatisticsError
               | Some m \<Rightarrow> Inr m))"

text \<open>
  \<^verbatim>\<open>UBIHandler._walk_ubi\<close>: a \<^verbatim>\<open>while True\<close> loop that ends at the first window
  that is empty or differs from the marker. With a stride of 0 it would never end, so the
  result is optional: \<open>None\<close> stands for a loop that does not return.
\<close>

partial_function (option) walk_ubi :: "byte_source \<Rightarrow> nat \<Rightarrow> nat option" where
  "walk_ubi file peb_size =
     (let offset = tell file
      in case read (length UBI_EC_HEADER) file of
           (first_bytes, file1) \<Rightarrow>
             if first_bytes = [] \<or> first_bytes \<noteq> UBI_EC_HEADER then Some offset
             else walk_ubi (seek (offset + peb_size) file1) peb_size)"

text \<open>
  \<^verbatim>\<open>UBIHandler.calculate_chunk\<close>. The outer \<open>None\<close> is a walk that does not return;
  \<^verbatim>\<open>PEBSizeNotFound\<close> is caught and answered with Python's \<^verbatim>\<open>None\<close>.
\<close>

definition ubi_calculate_chunk ::
  "byte_source \<Rightarrow> nat \<Rightarrow> (error + valid_chunk option) option" where
  "ubi_calculate_chunk file start =
     (case guess_peb_size file of
        Inl PEBSizeNotFound \<Rightarrow> Some (Inr None)
      | Inl e \<Rightarrow> Some (Inl e)
      | Inr peb_size \<Rightarrow>
          (case walk_ubi (seek start file) peb_size of
             None \<Rightarrow> None
           | Some end_off \<Rightarrow>
               Some (Inr (Some \<lparr>start_offset = start, end_offset = end_off\<rparr>))))"

section \<open>Gzip\<close>

definition GZIP2_CRC_LEN :: nat where
  "GZIP2_CRC_LEN = 4"

definition GZIP2_SIZE_LEN :: nat where
  "GZIP2_SIZE_LEN = 4"

definition GZIP2_FOOTER_LEN :: nat where
  "GZIP2_FOOTER_LEN = GZIP2_CRC_LEN + GZIP2_SIZE_LEN"

definition DEFAULT_BUFFER_SIZE :: nat where
  "DEFAULT_BUFFER_SIZE = 8192"

text \<open>
  The decoding engine under the reader (zlib's inflate and the checks of Python's gzip
  module) is outside this repository and is a parameter of the model: a function from the
  compressed bytes fed to it so far to its verdict. \<open>StreamEnd n\<close>: the final block of the
  member ended after \<open>n\<close> of these bytes; \<open>DataError\<close>: the deflate data is malformed
  (bad code lengths, an invalid back-reference), which zlib raises as \<^verbatim>\<open>zlib.error\<close>;
  \<open>ChecksumMismatch\<close>: the data fails an integrity check of the member, which the gzip
  module raises as \<^verbatim>\<open>gzip.BadGzipFile\<close>; \<open>NeedInput\<close>: no end of stream yet. Spec 4.2
  names the three malformed cases: bad code lengths, invalid back-reference, checksum
  mismatch.
\<close>

datatype inflate_status = StreamEnd nat | DataError | ChecksumMismatch | NeedInput

type_synonym inflate_engine = "byte list \<Rightarrow> inflate_status"

definition read_exact :: "nat \<Rightarrow> byte_source \<Rightarrow> error + (byte list \<times> byte_source)" where
  "read_exact n f =
     (case read n f of (bs, f') \<Rightarrow> if length bs < n then Inl EOFError else Inr (bs, f'))"

definition skip_zero_terminated :: "byte_source \<Rightarrow> byte_source" where
  "skip_zero_terminated f =
     (let rest = drop (position f) (content f);
          n = length (takeWhile (\<lambda>b. b \<noteq> 0) rest)
      in f\<lparr>position := position f + (if n < length rest then n + 1 else n)\<rparr>)"

text \<open>
  Modelled from the spec: \<^verbatim>\<open>SingleMemberGzipReader\<close> (\<^verbatim>\<open>_gzip_reader.py\<close>) is
  missing from the sources. Spec 4.2, \<open>read_header\<close>: parse the fixed prefix (magic,
  compression method, flag byte, optional extra fields per flags) at the stream start;
  return false, without an exception, if the magic does not match. The prefix is the
  member header of RFC 1952, which spec 6 takes as the wire format: two magic bytes, then
  method, flags, a 4-byte time, extra flags and operating system, then an extra field with a
  2-byte little-endian length (flag 4), a zero-terminated name (flag 8), a zero-terminated
  comment (flag 16) and a 2-byte header checksum (flag 2). A source that ends inside the
  fixed part is a truncated read.
\<close>

definition skip_extra_field :: "byte_source \<Rightarrow> error + byte_source" where
  "skip_extra_field f =
     (case read_exact 2 f of
        Inl e \<Rightarrow> Inl e
      | Inr (xlen, f1) \<Rightarrow>
          (case read_exact (le_uint xlen) f1 of
             Inl e \<Rightarrow> Inl e
           | Inr (extra, f2) \<Rightarrow> Inr f2))"

definition skip_optional_fields :: "byte \<Rightarrow> byte_source \<Rightarrow> error + byte_source" where
  "skip_optional_fields flag f =
     (case (if flag AND 4 \<noteq> 0 then skip_extra_field f else Inr f) of
        Inl e \<Rightarrow> Inl e
      | Inr f1 \<Rightarrow>
          (let f2 = (if flag AND 8 \<noteq> 0 then skip_zero_terminated f1 else f1);
               f3 = (if flag AND 16 \<noteq> 0 then skip_zero_terminated f2 else f2)
           in if flag AND 2 \<noteq> 0
              then (case read_exact 2 f3 of
                      Inl e \<Rightarrow> Inl e
                    | Inr (crc16, f4) \<Rightarrow> Inr f4)
              else Inr f3))"

definition gzip_read_header :: "byte_source \<Rightarrow> error + (bool \<times> byte_source)" where
  "gzip_read_header f =
     (case read 2 f of
        (magic, f1) \<Rightarrow>
          if magic \<noteq> [0x1f, 0x8b] then Inr (False, f1)
          else
            (case read_exact 8 f1 of
               Inl e \<Rightarrow> Inl e
             | Inr (fixed, f2) \<Rightarrow>
                 (case skip_optional_fields (fixed ! 1) f2 of
                    Inl e \<Rightarrow> Inl e
                  | Inr f3 \<Rightarrow> Inr (True, f3))))"

text \<open>
  Modelled from the spec: \<^verbatim>\<open>SingleMemberGzipReader.read_until_eof\<close> and its
  \<^verbatim>\<open>unused_data\<close> are missing from the sources. Spec 4.2, \<open>read_until_member_end\<close>:
  repeatedly pull compressed bytes and feed them to the inflate engine, tracking how many
  input bytes were consumed and how many are buffered but unused, until the engine reports
  the final block of this member; fail if the compressed data is malformed, with the
  exception that the engine's verdict stands for. Bytes are
  pulled a buffer at a time, so the cursor of the source may be beyond the end of the
  member when the loop ends; the result carries the number of unused bytes. \<open>fed\<close> is the
  input given to the engine so far. A source that ends before the end of the stream is a
  truncated read.
\<close>

function read_until_eof ::
  "inflate_engine \<Rightarrow> byte list \<Rightarrow> byte_source \<Rightarrow> error + (nat \<times> byte_source)" where
  "read_until_eof engine fed file =
     (case read DEFAULT_BUFFER_SIZE file of
        (buf, file1) \<Rightarrow>
          (case engine (fed @ buf) of
             DataError \<Rightarrow> Inl ZlibError
           | ChecksumMismatch \<Rightarrow> Inl BadGzipFile
           | StreamEnd n \<Rightarrow> Inr (length (fed @ buf) - n, file1)
           | NeedInput \<Rightarrow>
               if buf = [] then Inl EOFError
               else read_until_eof engine (fed @ buf) file1))"
  by pat_completeness auto
termination
  by (relation "measure (\<lambda>(engine, fed, file). length (content file) - position file)")
     (auto simp: read_def Let_def)

text \<open>
  Modelled from the spec: \<^verbatim>\<open>file_utils.read_until_past\<close> is missing from the sources.
  Spec 4.3: skip forward over any run of padding bytes; the result is the position
  immediately after that skip.
\<close>

definition read_until_past :: "byte_source \<Rightarrow> byte list \<Rightarrow> nat" where
  "read_until_past file pattern =
     position file
       + length (takeWhile (\<lambda>b. b \<in> set pattern) (drop (position file) (content file)))"

text \<open>
  \<^verbatim>\<open>GZIPHandler.calculate_chunk\<close>. The \<^verbatim>\<open>try\<close> block turns
  \<^verbatim>\<open>gzip.BadGzipFile\<close> and \<^verbatim>\<open>zlib.error\<close> into \<^verbatim>\<open>InvalidInputFormat\<close>;
  any other exception passes through.
\<close>

definition gzip_calculate_chunk ::
  "inflate_engine \<Rightarrow> byte_source \<Rightarrow> nat \<Rightarrow> error + valid_chunk option" where
  "gzip_calculate_chunk engine file start =
     (case gzip_read_header file of
        Inl e \<Rightarrow> Inl e
      | Inr (ok, file1) \<Rightarrow>
          if \<not> ok then Inr None
          else
            (case (case read_until_eof engine [] file1 of
                     Inl BadGzipFile \<Rightarrow> Inl InvalidInputFormat
                   | Inl ZlibError \<Rightarrow> Inl InvalidInputFormat
                   | Inl e \<Rightarrow> Inl e
                   | Inr r \<Rightarrow> Inr r) of
               Inl e \<Rightarrow> Inl e
             | Inr (unused_data, file2) \<Rightarrow>
                 (case seek_cur (int GZIP2_FOOTER_LEN - int unused_data) file2 of
                    Inl e \<Rightarrow> Inl e
                  | Inr file3 \<Rightarrow>
                      (let end_off = read_until_past file3 [0x00]
                       in Inr (Some \<lparr>start_offset = start, end_offset = end_off\<rparr>)))))"

text \<open>
  An inflate engine for deflate streams made of stored blocks only (RFC 1951, 3.2.4: a
  header byte with the final-block bit and block type 0, a 2-byte little-endian length,
  its one's complement, then the literal bytes). It stands in for zlib where the
  calculator is run on a concrete input. \<open>consumed\<close> counts the bytes of the blocks
  already passed.
\<close>

fun stored_inflate_from :: "nat \<Rightarrow> byte list \<Rightarrow> inflate_status" where
  "stored_inflate_from consumed (b0 # l0 # l1 # n0 # n1 # rest) =
     (if b0 AND 6 \<noteq> 0 then DataError
      else if le_uint [l0, l1] + le_uint [n0, n1] \<noteq> 65535 then DataError
      else if length rest < le_uint [l0, l1] then NeedInput
      else if b0 AND 1 = 1 then StreamEnd (consumed + 5 + le_uint [l0, l1])
      else stored_inflate_from (consumed + 5 + le_uint [l0, l1]) (drop (le_uint [l0, l1]) rest))"
| "stored_inflate_from consumed bs = NeedInput"

definition stored_inflate :: inflate_engine where
  "stored_inflate bs = stored_inflate_from 0 bs"

text \<open>
  The same engine with the length check of the gzip trailer on top (RFC 1952: the last
  four trailer bytes hold the length of the uncompressed data modulo \<open>2 ^ 32\<close>,
  little-endian). \<open>stored_length_from\<close> adds up the lengths of the stored blocks; once the
  8 trailer bytes after the end of the stream have been fed, a length field that differs
  from the decoded length is reported as \<open>ChecksumMismatch\<close>.
\<close>

fun stored_length_from :: "nat \<Rightarrow> byte list \<Rightarrow> nat" where
  "stored_length_from produced (b0 # l0 # l1 # n0 # n1 # rest) =
     (if b0 AND 6 \<noteq> 0 then produced
      else if le_uint [l0, l1] + le_uint [n0, n1] \<noteq> 65535 then produced
      else if length rest < le_uint [l0, l1] then produced
      else if b0 AND 1 = 1 then produced + le_uint [l0, l1]
      else stored_length_from (produced + le_uint [l0, l1]) (drop (le_uint [l0, l1]) rest))"
| "stored_length_from produced bs = produced"

definition stored_inflate_checked :: inflate_engine where
  "stored_inflate_checked bs =
     (case stored_inflate bs of
        StreamEnd n \<Rightarrow>
          if n + 8 \<le> length bs
             \<and> le_uint (take 4 (drop (n + 4) bs)) \<noteq> stored_length_from 0 bs mod 2 ^ 32
          then ChecksumMismatch
          else StreamEnd n
      | DataError \<Rightarrow> DataError
      | ChecksumMismatch \<Rightarrow> ChecksumMismatch
      | NeedInput \<Rightarrow> NeedInput)"

section \<open>Concrete inputs\<close>

text \<open>
  An NTFS boot sector of 512 bytes: 512 bytes per sector (offset 11), 16 sectors in total
  (offset 40), the end-of-sector marker 55 AA.
\<close>

definition ntfs_example :: "byte list" where
  "ntfs_example =
     [0xEB, 0x52, 0x90, 0x4E, 0x54, 0x46, 0x53, 0x20, 0x20, 0x20, 0x20, 0x00, 0x02]
     @ replicate 27 0 @ [0x10, 0, 0, 0, 0, 0, 0, 0] @ replicate 462 0 @ [0x55, 0xAA]"

text \<open>
  Two LZH headers (21 bytes each, method \<^verbatim>\<open>-lh5-\<close> and \<^verbatim>\<open>-lh0-\<close>). The first
  is a level-2 header whose first two bytes are 05 01, with compressed size 16, followed by
  256 more bytes. The second is a level-0 header with header size 22 and compressed size 4,
  followed by the 3 remaining header bytes, 4 payload bytes and a terminating null byte.
\<close>

definition lzh_level2_example :: "byte list" where
  "lzh_level2_example =
     [0x05, 0x01, 0x2D, 0x6C, 0x68, 0x35, 0x2D, 0x10, 0, 0, 0, 0x20, 0, 0, 0,
      0, 0, 0, 0, 0x20, 0x02] @ replicate 256 0"

definition lzh_level0_example :: "byte list" where
  "lzh_level0_example =
     [0x16, 0x5C, 0x2D, 0x6C, 0x68, 0x30, 0x2D, 0x04, 0, 0, 0, 0x04, 0, 0, 0,
      0, 0, 0, 0, 0x20, 0x00, 0x00, 0x12, 0x34, 0x01, 0x02, 0x03, 0x04, 0x00]"

text \<open>
  A level-2 LZH header (21 bytes, method \<^verbatim>\<open>-lh5-\<close>) in which the two header-size
  bytes and the compressed size are zero, and nothing after it.
\<close>

definition lzh_zero_example :: "byte list" where
  "lzh_zero_example =
     [0x00, 0x00, 0x2D, 0x6C, 0x68, 0x35, 0x2D, 0, 0, 0, 0, 0, 0, 0, 0,
      0, 0, 0, 0, 0x20, 0x02]"

text \<open>
  Three UBIFS superblock nodes of 4096 bytes, with node type 6 at offset 20. The first two
  encode the same geometry, LEB size 4096 (offset 36) and LEB count 3 (offset 40), once
  big-endian and once little-endian. The third has the big-endian magic and a geometry of
  zeros.
\<close>

definition ubifs_be_example :: "byte list" where
  "ubifs_be_example =
     [0x06, 0x10, 0x18, 0x31] @ replicate 16 0 @ [0x06, 0x00, 0x00, 0x00] @ replicate 12 0
     @ [0x00, 0x00, 0x10, 0x00]
     @ [0x00, 0x00, 0x00, 0x03] @ replicate 4052 0"

definition ubifs_le_example :: "byte list" where
  "ubifs_le_example =
     [0x31, 0x18, 0x10, 0x06] @ replicate 16 0 @ [0x06, 0x00, 0x00, 0x00] @ replicate 12 0
     @ [0x00, 0x10, 0x00, 0x00]
     @ [0x03, 0x00, 0x00, 0x00] @ replicate 4052 0"

definition ubifs_zero_example :: "byte list" where
  "ubifs_zero_example =
     [0x06, 0x10, 0x18, 0x31] @ replicate 16 0 @ [0x06, 0x00, 0x00, 0x00] @ replicate 4072 0"

text \<open>
  The window that \<^verbatim>\<open>_walk_ubi\<close> reads at offset \<open>p\<close> is the erase-block marker.
\<close>

definition marker_at :: "byte_source \<Rightarrow> nat \<Rightarrow> bool" where
  "marker_at file p \<longleftrightarrow> take (length UBI_EC_HEADER) (drop p (content file)) = UBI_EC_HEADER"

text \<open>
  A UBI image with an erase-block marker (and version byte 1) every 8 bytes, three times,
  followed by four bytes FF.
\<close>

definition ubi_example :: "byte list" where
  "ubi_example =
     [0x55, 0x42, 0x49, 0x23, 0x01, 0x00, 0x00, 0x00,
      0x55, 0x42, 0x49, 0x23, 0x01, 0x00, 0x00, 0x00,
      0x55, 0x42, 0x49, 0x23, 0x01, 0x00, 0x00, 0x00,
      0xFF, 0xFF, 0xFF, 0xFF]"

text \<open>
  A gzip member: a 10-byte header without optional fields, a deflate stream of one final
  stored block holding two bytes, and an 8-byte trailer. \<open>gzip_example\<close> has three bytes
  before the member, five zero bytes and two other bytes after it; in
  \<open>gzip_corrupt_example\<close> the one's complement of the block length is wrong, in
  \<open>gzip_badsize_example\<close> the length field of the trailer says 3 for the two bytes, and
  \<open>gzip_truncated_example\<close> ends after the deflate stream, before the trailer.
\<close>

definition gzip_header_example :: "byte list" where
  "gzip_header_example = [0x1F, 0x8B, 0x08, 0x00, 0x00, 0x00, 0x00, 0x00, 0x02, 0x03]"

definition gzip_trailer_example :: "byte list" where
  "gzip_trailer_example = [0xAC, 0x2A, 0x93, 0xD8, 0x02, 0x00, 0x00, 0x00]"

definition gzip_example :: "byte list" where
  "gzip_example =
     [0xAA, 0xBB, 0xCC] @ gzip_header_example @ [0x01, 0x02, 0x00, 0xFD, 0xFF, 0x68, 0x69]
     @ gzip_trailer_example @ replicate 5 0 @ 0x42 # [0x43]"

definition gzip_corrupt_example :: "byte list" where
  "gzip_corrupt_example =
     gzip_header_example @ [0x01, 0x02, 0x00, 0xFF, 0xFF, 0x68, 0x69] @ gzip_trailer_example"

definition gzip_badsize_example :: "byte list" where
  "gzip_badsize_example =
     gzip_header_example @ [0x01, 0x02, 0x00, 0xFD, 0xFF, 0x68, 0x69]
     @ [0xAC, 0x2A, 0x93, 0xD8, 0x03, 0x00, 0x00, 0x00]"

definition gzip_truncated_example :: "byte list" where
  "gzip_truncated_example = gzip_header_example @ [0x01, 0x02, 0x00, 0xFD, 0xFF, 0x68, 0x69]"

section \<open>Properties of byte sources and StructView\<close>

lemma seek_cur_forward: "seek_cur (int n) f = Inr (f\<lparr>position := position f + n\<rparr>)"
  by (simp add: seek_cur_def nat_int_add)

lemma seek_cur_forward2:
  "seek_cur (int a + int b) f = Inr (f\<lparr>position := position f + a + b\<rparr>)"
  using seek_cur_forward [of "a + b" f] by (simp add: add.assoc)

lemma parse_header_Inr:
  "parse_header l e f = Inr (h, f') \<longleftrightarrow>
     layout_size l \<le> length (content f) - position f \<and>
     h = \<lparr>field_values = decode_fields e l (take (layout_size l) (drop (position f) (content f))),
          size_bytes = layout_size l\<rparr> \<and>
     f' = f\<lparr>position := position f + layout_size l\<rparr>"
  by (auto simp: parse_header_def read_def Let_def min_def split: if_splits)

lemma parse_header_Inl:
  "parse_header l e f = Inl x \<longleftrightarrow>
     x = TruncatedHeader \<and> length (content f) - position f < layout_size l"
  by (auto simp: parse_header_def read_def Let_def min_def split: if_splits)

lemma le_uint_bound: "le_uint bs < 256 ^ length bs"
proof (induction bs)
  case Nil
  show ?case by simp
next
  case (Cons b bs)
  have "unat b < 256" using unsigned_less [of b, where 'a = nat] by simp
  with Cons show ?case by simp
qed

lemma decode_uint_bound: "decode_uint e bs < 256 ^ length bs"
  using le_uint_bound [of bs] le_uint_bound [of "rev bs"]
  by (cases e) (simp_all add: decode_uint_def)

lemma decode_uint_byte: "decode_uint e (take 1 bs) < 256"
proof -
  have "decode_uint e (take 1 bs) < 256 ^ length (take 1 bs)"
    by (rule decode_uint_bound)
  also have "\<dots> \<le> (256::nat) ^ 1"
    by (rule power_increasing) simp_all
  finally show ?thesis by simp
qed

section \<open>NTFS: the chunk follows the volume size\<close>

lemma ntfs_boot_t_size: "layout_size ntfs_boot_t = 512"
  by (simp add: layout_size_def ntfs_boot_t_def)

lemma ntfs_fields:
  "uint_field \<lparr>field_values = decode_fields e ntfs_boot_t bs, size_bytes = n\<rparr> ''total_sectors''
     = Some (decode_uint e (take 8 (drop 40 bs)))"
  "uint_field \<lparr>field_values = decode_fields e ntfs_boot_t bs, size_bytes = n\<rparr> ''bytes_per_sector''
     = Some (decode_uint e (take 2 (drop 11 bs)))"
  by (simp_all add: uint_field_def ntfs_boot_t_def decode_field_def)

text \<open>
  Claim C7. For every NTFS candidate whose boot sector parses, both fields are present, the
  header is 512 bytes long, and the calculator returns no chunk exactly when
  \<open>total_sectors * bytes_per_sector\<close> is 0; otherwise it returns the chunk that ends at
  \<open>start + header length + total_sectors * bytes_per_sector\<close>.
\<close>

theorem ntfs_chunk_by_volume_size:
  assumes "parse_header ntfs_boot_t LITTLE file = Inr (header, file1)"
  shows "\<exists>total_sectors bytes_per_sector.
           uint_field header ''total_sectors'' = Some total_sectors \<and>
           uint_field header ''bytes_per_sector'' = Some bytes_per_sector \<and>
           len_header header = 512 \<and>
           ntfs_calculate_chunk file start =
             (if total_sectors * bytes_per_sector = 0 then Inr None
              else Inr (Some \<lparr>start_offset = start,
                               end_offset = start + len_header header
                                            + total_sectors * bytes_per_sector\<rparr>))"
proof -
  from assms obtain bs where
    h: "header = \<lparr>field_values = decode_fields LITTLE ntfs_boot_t bs, size_bytes = 512\<rparr>"
    by (auto simp: parse_header_Inr ntfs_boot_t_size)
  show ?thesis
    using assms unfolding h
    by (simp add: ntfs_calculate_chunk_def ntfs_fields len_header_def Let_def)
qed

theorem ntfs_chunk_by_volume_size_witness:
  "parse_header ntfs_boot_t LITTLE \<lparr>content = ntfs_example, position = 0\<rparr>
     = Inr (\<lparr>field_values = decode_fields LITTLE ntfs_boot_t ntfs_example, size_bytes = 512\<rparr>,
            \<lparr>content = ntfs_example, position = 512\<rparr>)
   \<and> ntfs_calculate_chunk \<lparr>content = ntfs_example, position = 0\<rparr> 0
       = Inr (Some \<lparr>start_offset = 0, end_offset = 8704\<rparr>)"
proof -
  let ?F = "\<lparr>content = ntfs_example, position = 0\<rparr>"
  let ?H = "\<lparr>field_values = decode_fields LITTLE ntfs_boot_t ntfs_example, size_bytes = 512\<rparr>"
  have p: "parse_header ntfs_boot_t LITTLE ?F
             = Inr (?H, \<lparr>content = ntfs_example, position = 512\<rparr>)"
    by (simp add: parse_header_Inr ntfs_boot_t_size ntfs_example_def)
  from ntfs_chunk_by_volume_size [OF p, of 0]
  obtain ts bps where a: "uint_field ?H ''total_sectors'' = Some ts"
    and b: "uint_field ?H ''bytes_per_sector'' = Some bps"
    and c: "ntfs_calculate_chunk ?F 0 =
             (if ts * bps = 0 then Inr None
              else Inr (Some \<lparr>start_offset = 0, end_offset = 0 + len_header ?H + ts * bps\<rparr>))"
    by blast
  have "ts = 16" using a by (simp add: ntfs_fields ntfs_example_def decode_uint_def)
  moreover have "bps = 512" using b by (simp add: ntfs_fields ntfs_example_def decode_uint_def)
  ultimately show ?thesis using p c by (simp add: len_header_def)
qed

section \<open>LZH: header size, end offset, trailing null byte\<close>

lemma lzh_default_header_t_size: "layout_size lzh_default_header_t = 21"
  by (simp add: layout_size_def lzh_default_header_t_def)

lemma lzh_fields:
  "uint_field \<lparr>field_values = decode_fields e lzh_default_header_t bs, size_bytes = n\<rparr>
     ''header_size'' = Some (decode_uint e (take 1 bs))"
  "uint_field \<lparr>field_values = decode_fields e lzh_default_header_t bs, size_bytes = n\<rparr>
     ''header_checksum'' = Some (decode_uint e (take 1 (drop 1 bs)))"
  "uint_field \<lparr>field_values = decode_fields e lzh_default_header_t bs, size_bytes = n\<rparr>
     ''compressed_size'' = Some (decode_uint e (take 4 (drop 7 bs)))"
  "uint_field \<lparr>field_values = decode_fields e lzh_default_header_t bs, size_bytes = n\<rparr>
     ''level_identifier'' = Some (decode_uint e (take 1 (drop 20 bs)))"
  by (simp_all add: uint_field_def lzh_default_header_t_def decode_field_def)

lemma lzh_calculate_chunk_parsed:
  assumes "parse_header lzh_default_header_t LITTLE file = Inr (header, file1)"
  shows "\<exists>level_identifier hsize checksum compressed_size.
           uint_field header ''level_identifier'' = Some level_identifier \<and>
           uint_field header ''header_size'' = Some hsize \<and>
           uint_field header ''header_checksum'' = Some checksum \<and>
           uint_field header ''compressed_size'' = Some compressed_size \<and>
           hsize < 256 \<and> checksum < 256 \<and>
           lzh_calculate_chunk file start =
             Inr (Some \<lparr>start_offset = start,
                        end_offset =
                          (if int (length (content file))
                                - int (position file + lzh_header_size level_identifier hsize checksum
                                       + compressed_size) = 1
                           then length (content file)
                           else position file + lzh_header_size level_identifier hsize checksum
                                + compressed_size)\<rparr>)"
proof -
  from assms obtain bs where
    h: "header = \<lparr>field_values = decode_fields LITTLE lzh_default_header_t bs, size_bytes = 21\<rparr>"
    and f1: "file1 = file\<lparr>position := position file + 21\<rparr>"
    by (auto simp: parse_header_Inr lzh_default_header_t_size)
  have b1: "decode_uint LITTLE (take 1 bs) < 256"
    by (rule decode_uint_byte)
  have b2: "decode_uint LITTLE (take 1 (drop 1 bs)) < 256"
    by (rule decode_uint_byte)
  have s1: "seek_cur (- 21) (file\<lparr>position := position file + 21\<rparr>) = Inr file"
    by (simp add: seek_cur_def)
  show ?thesis
    using assms b1 b2 unfolding h f1
    by (simp add: lzh_calculate_chunk_def lzh_fields len_header_def Let_def seek_cur_forward2
        s1 seek_end_def tell_def)
qed

lemma nat_add_push_bit_or:
  fixes a b :: nat
  assumes "a < 256"
  shows "a + push_bit 8 b = a OR push_bit 8 b"
proof -
  have a: "take_bit 8 a = a"
    using assms by (simp add: take_bit_nat_eq_self)
  have "take_bit 8 a AND push_bit 8 b = 0"
    by (auto simp: bit_eq_iff bit_simps)
  then have "a AND push_bit 8 b = 0"
    by (simp only: a)
  then show ?thesis
    by (rule disjunctive_add_eq_or)
qed

text \<open>
  Claim C4. For every parsed LZH header whose level identifier is 2, the header size the
  calculator works with is the byte parsed as \<open>header_size\<close> combined with the byte parsed
  as \<open>header_checksum\<close> as low and high byte, \<open>header_size OR (header_checksum << 8)\<close>, and
  the chunk is computed from it. The witness has the bytes 05 01: the size is 0x0105.
\<close>

theorem lzh_level2_header_size:
  assumes "parse_header lzh_default_header_t LITTLE file = Inr (header, file1)"
    and "uint_field header ''level_identifier'' = Some 2"
  shows "\<exists>hsize checksum compressed_size.
           uint_field header ''header_size'' = Some hsize \<and>
           uint_field header ''header_checksum'' = Some checksum \<and>
           uint_field header ''compressed_size'' = Some compressed_size \<and>
           lzh_header_size 2 hsize checksum = hsize OR push_bit 8 checksum \<and>
           lzh_calculate_chunk file start =
             Inr (Some \<lparr>start_offset = start,
                        end_offset =
                          (if int (length (content file))
                                - int (position file + (hsize OR push_bit 8 checksum)
                                       + compressed_size) = 1
                           then length (content file)
                           else position file + (hsize OR push_bit 8 checksum)
                                + compressed_size)\<rparr>)"
proof -
  from lzh_calculate_chunk_parsed [OF assms(1), of start] assms(2)
  obtain hsize checksum compressed_size where
    f: "uint_field header ''header_size'' = Some hsize"
       "uint_field header ''header_checksum'' = Some checksum"
       "uint_field header ''compressed_size'' = Some compressed_size"
    and b: "hsize < 256"
    and r: "lzh_calculate_chunk file start =
             Inr (Some \<lparr>start_offset = start,
                        end_offset =
                          (if int (length (content file))
                                - int (position file + lzh_header_size 2 hsize checksum
                                       + compressed_size) = 1
                           then length (content file)
                           else position file + lzh_header_size 2 hsize checksum
                                + compressed_size)\<rparr>)"
    by auto
  have e: "lzh_header_size 2 hsize checksum = hsize OR push_bit 8 checksum"
    using b by (simp add: lzh_header_size_def nat_add_push_bit_or)
  from r have r': "lzh_calculate_chunk file start =
             Inr (Some \<lparr>start_offset = start,
                        end_offset =
                          (if int (length (content file))
                                - int (position file + (hsize OR push_bit 8 checksum)
                                       + compressed_size) = 1
                           then length (content file)
                           else position file + (hsize OR push_bit 8 checksum)
                                + compressed_size)\<rparr>)"
    by (simp only: e)
  show ?thesis
    using f e r' by blast
qed

theorem lzh_level2_header_size_witness:
  "lzh_header_size 2 0x05 0x01 = 0x0105 \<and>
   lzh_calculate_chunk \<lparr>content = lzh_level2_example, position = 0\<rparr> 0
     = Inr (Some \<lparr>start_offset = 0, end_offset = 0x0105 + 0x10\<rparr>)"
proof -
  let ?F = "\<lparr>content = lzh_level2_example, position = 0\<rparr>"
  let ?H = "\<lparr>field_values = decode_fields LITTLE lzh_default_header_t (take 21 lzh_level2_example),
             size_bytes = 21\<rparr>"
  have p: "parse_header lzh_default_header_t LITTLE ?F
             = Inr (?H, \<lparr>content = lzh_level2_example, position = 21\<rparr>)"
    by (simp add: parse_header_Inr lzh_default_header_t_size lzh_level2_example_def)
  have l: "uint_field ?H ''level_identifier'' = Some 2"
    by (simp add: lzh_fields lzh_level2_example_def decode_uint_def)
  from lzh_level2_header_size [OF p l, of 0]
  obtain hsize checksum compressed_size where
    f: "uint_field ?H ''header_size'' = Some hsize"
       "uint_field ?H ''header_checksum'' = Some checksum"
       "uint_field ?H ''compressed_size'' = Some compressed_size"
    and e: "lzh_header_size 2 hsize checksum = hsize OR push_bit 8 checksum"
    and r: "lzh_calculate_chunk ?F 0 =
             Inr (Some \<lparr>start_offset = 0,
                        end_offset =
                          (if int (length (content ?F))
                                - int (position ?F + (hsize OR push_bit 8 checksum)
                                       + compressed_size) = 1
                           then length (content ?F)
                           else position ?F + (hsize OR push_bit 8 checksum)
                                + compressed_size)\<rparr>)"
    by blast
  have v1: "hsize = 5"
    using f(1) by (simp add: lzh_fields lzh_level2_example_def decode_uint_def)
  have v2: "checksum = 1"
    using f(2) by (simp add: lzh_fields lzh_level2_example_def decode_uint_def)
  have v3: "compressed_size = 16"
    using f(3) by (simp add: lzh_fields lzh_level2_example_def decode_uint_def)
  note v = v1 v2 v3
  have o: "(5::nat) OR push_bit 8 1 = 261"
    by simp
  have "lzh_header_size 2 0x05 0x01 = 0x0105"
    using e o unfolding v by simp
  moreover have "lzh_calculate_chunk ?F 0 = Inr (Some \<lparr>start_offset = 0, end_offset = 0x0105 + 0x10\<rparr>)"
    using r o unfolding v by (simp add: lzh_level2_example_def)
  ultimately show ?thesis by blast
qed

text \<open>
  Claim C5. For every LZH invocation whose header parses, with the computed end offset
  being cursor + header size + compressed size: if the file length minus the computed end
  is exactly 1, the chunk ends at the file length; for any other gap the computed end
  offset is returned unchanged.
\<close>

theorem lzh_absorbs_trailing_null:
  assumes "parse_header lzh_default_header_t LITTLE file = Inr (header, file1)"
  shows "\<exists>level_identifier hsize checksum compressed_size.
           uint_field header ''level_identifier'' = Some level_identifier \<and>
           uint_field header ''header_size'' = Some hsize \<and>
           uint_field header ''header_checksum'' = Some checksum \<and>
           uint_field header ''compressed_size'' = Some compressed_size \<and>
           lzh_calculate_chunk file start =
             Inr (Some \<lparr>start_offset = start,
                        end_offset =
                          (if int (length (content file))
                                - int (position file + lzh_header_size level_identifier hsize checksum
                                       + compressed_size) = 1
                           then length (content file)
                           else position file + lzh_header_size level_identifier hsize checksum
                                + compressed_size)\<rparr>)"
  using lzh_calculate_chunk_parsed [OF assms, of start] by blast

lemma lzh_level0_example_fields:
  "uint_field \<lparr>field_values = decode_fields LITTLE lzh_default_header_t (take 21 lzh_level0_example),
              size_bytes = 21\<rparr> ''level_identifier'' = Some 0"
  "uint_field \<lparr>field_values = decode_fields LITTLE lzh_default_header_t (take 21 lzh_level0_example),
              size_bytes = 21\<rparr> ''header_size'' = Some 22"
  "uint_field \<lparr>field_values = decode_fields LITTLE lzh_default_header_t (take 21 lzh_level0_example),
              size_bytes = 21\<rparr> ''header_checksum'' = Some 92"
  "uint_field \<lparr>field_values = decode_fields LITTLE lzh_default_header_t (take 21 lzh_level0_example),
              size_bytes = 21\<rparr> ''compressed_size'' = Some 4"
  by (simp_all add: lzh_fields lzh_level0_example_def decode_uint_def)

theorem lzh_absorbs_trailing_null_witness:
  "lzh_calculate_chunk \<lparr>content = lzh_level0_example, position = 0\<rparr> 0
     = Inr (Some \<lparr>start_offset = 0, end_offset = 29\<rparr>) \<and>
   lzh_calculate_chunk \<lparr>content = take 28 lzh_level0_example, position = 0\<rparr> 0
     = Inr (Some \<lparr>start_offset = 0, end_offset = 28\<rparr>)"
proof -
  let ?H = "\<lparr>field_values = decode_fields LITTLE lzh_default_header_t (take 21 lzh_level0_example),
             size_bytes = 21\<rparr>"
  have p: "parse_header lzh_default_header_t LITTLE \<lparr>content = lzh_level0_example, position = 0\<rparr>
             = Inr (?H, \<lparr>content = lzh_level0_example, position = 21\<rparr>)"
    by (simp add: parse_header_Inr lzh_default_header_t_size lzh_level0_example_def)
  have q: "parse_header lzh_default_header_t LITTLE
             \<lparr>content = take 28 lzh_level0_example, position = 0\<rparr>
             = Inr (?H, \<lparr>content = take 28 lzh_level0_example, position = 21\<rparr>)"
    by (simp add: parse_header_Inr lzh_default_header_t_size lzh_level0_example_def)
  have l: "length lzh_level0_example = 29"
    by (simp add: lzh_level0_example_def)
  have "lzh_calculate_chunk \<lparr>content = lzh_level0_example, position = 0\<rparr> 0
     = Inr (Some \<lparr>start_offset = 0, end_offset = 29\<rparr>)"
    using lzh_absorbs_trailing_null [OF p, of 0]
    by (simp add: lzh_level0_example_fields lzh_header_size_def PADDING_LEN_def l)
  moreover have "lzh_calculate_chunk \<lparr>content = take 28 lzh_level0_example, position = 0\<rparr> 0
     = Inr (Some \<lparr>start_offset = 0, end_offset = 28\<rparr>)"
    using lzh_absorbs_trailing_null [OF q, of 0]
    by (simp add: lzh_level0_example_fields lzh_header_size_def PADDING_LEN_def l)
  ultimately show ?thesis by blast
qed

text \<open>
  Claim C6. For every parsed LZH header whose level identifier is 0 or 1, read with the
  cursor at the start offset, the header size the calculator works with is the parsed
  \<open>header_size\<close> plus 2 and the computed end offset is
  \<open>start + header size + compressed_size\<close> (kept unless exactly one byte is left after
  it). Nothing but the 21 header bytes, the cursor and the file length enters the result
  (\<open>lzh_reads_header_only\<close>).
\<close>

theorem lzh_default_level_end_offset:
  assumes "parse_header lzh_default_header_t LITTLE file = Inr (header, file1)"
    and "uint_field header ''level_identifier'' = Some level_identifier"
    and "level_identifier = 0 \<or> level_identifier = 1"
    and "position file = start"
  shows "\<exists>hsize checksum compressed_size.
           uint_field header ''header_size'' = Some hsize \<and>
           uint_field header ''header_checksum'' = Some checksum \<and>
           uint_field header ''compressed_size'' = Some compressed_size \<and>
           lzh_header_size level_identifier hsize checksum = hsize + 2 \<and>
           lzh_calculate_chunk file start =
             Inr (Some \<lparr>start_offset = start,
                        end_offset =
                          (if int (length (content file))
                                - int (start + (hsize + 2) + compressed_size) = 1
                           then length (content file)
                           else start + (hsize + 2) + compressed_size)\<rparr>)"
proof -
  from lzh_calculate_chunk_parsed [OF assms(1), of start] assms(2)
  obtain hsize checksum compressed_size where
    f: "uint_field header ''header_size'' = Some hsize"
       "uint_field header ''header_checksum'' = Some checksum"
       "uint_field header ''compressed_size'' = Some compressed_size"
    and r: "lzh_calculate_chunk file start =
             Inr (Some \<lparr>start_offset = start,
                        end_offset =
                          (if int (length (content file))
                                - int (position file
                                       + lzh_header_size level_identifier hsize checksum
                                       + compressed_size) = 1
                           then length (content file)
                           else position file + lzh_header_size level_identifier hsize checksum
                                + compressed_size)\<rparr>)"
    by auto
  have e: "lzh_header_size level_identifier hsize checksum = hsize + 2"
    using assms(3) by (auto simp: lzh_header_size_def PADDING_LEN_def)
  from r have r': "lzh_calculate_chunk file start =
             Inr (Some \<lparr>start_offset = start,
                        end_offset =
                          (if int (length (content file))
                                - int (start + (hsize + 2) + compressed_size) = 1
                           then length (content file)
                           else start + (hsize + 2) + compressed_size)\<rparr>)"
    by (simp only: e assms(4))
  show ?thesis
    using f e r' by blast
qed

theorem lzh_default_level_end_offset_witness:
  "lzh_header_size 0 22 92 = 24 \<and>
   lzh_calculate_chunk \<lparr>content = take 28 lzh_level0_example @ [0xFF, 0xFF], position = 0\<rparr> 0
     = Inr (Some \<lparr>start_offset = 0, end_offset = 0 + 24 + 4\<rparr>)"
proof -
  let ?F = "\<lparr>content = take 28 lzh_level0_example @ [0xFF, 0xFF], position = 0\<rparr>"
  let ?H = "\<lparr>field_values = decode_fields LITTLE lzh_default_header_t (take 21 lzh_level0_example),
             size_bytes = 21\<rparr>"
  have p: "parse_header lzh_default_header_t LITTLE ?F
             = Inr (?H, \<lparr>content = take 28 lzh_level0_example @ [0xFF, 0xFF], position = 21\<rparr>)"
    by (simp add: parse_header_Inr lzh_default_header_t_size lzh_level0_example_def)
  have d: "(0::nat) = 0 \<or> (0::nat) = 1"
    by simp
  have s: "position ?F = 0"
    by simp
  from lzh_default_level_end_offset [OF p lzh_level0_example_fields(1) d s]
  show ?thesis
    by (simp add: lzh_level0_example_fields) (simp add: lzh_level0_example_def)
qed

lemma lzh_reads_header_only:
  assumes "take 21 (drop (position f) (content f)) = take 21 (drop (position g) (content g))"
    and "position f = position g" and "length (content f) = length (content g)"
  shows "lzh_calculate_chunk f start = lzh_calculate_chunk g start"
proof (cases "21 \<le> length (content f) - position f")
  case True
  let ?h = "\<lparr>field_values = decode_fields LITTLE lzh_default_header_t
                (take 21 (drop (position f) (content f))), size_bytes = 21\<rparr>"
  have pf: "parse_header lzh_default_header_t LITTLE f = Inr (?h, f\<lparr>position := position f + 21\<rparr>)"
    using True by (simp add: parse_header_Inr lzh_default_header_t_size)
  have pg: "parse_header lzh_default_header_t LITTLE g = Inr (?h, g\<lparr>position := position g + 21\<rparr>)"
    using True assms by (simp add: parse_header_Inr lzh_default_header_t_size)
  from lzh_calculate_chunk_parsed [OF pf, of start] lzh_calculate_chunk_parsed [OF pg, of start]
  show ?thesis
    using assms(2,3) by auto
next
  case False
  then have "parse_header lzh_default_header_t LITTLE f = Inl TruncatedHeader"
    "parse_header lzh_default_header_t LITTLE g = Inl TruncatedHeader"
    using assms by (simp_all add: parse_header_Inl lzh_default_header_t_size)
  then show ?thesis
    by (simp add: lzh_calculate_chunk_def)
qed

section \<open>UBIFS: byte order and the absence of a rejection path\<close>

lemma ubifs_sb_node_t_size: "layout_size ubifs_sb_node_t = 4096"
  by (simp add: layout_size_def ubifs_sb_node_t_def)

lemma ubifs_fields:
  "uint_field \<lparr>field_values = decode_fields e ubifs_sb_node_t bs, size_bytes = n\<rparr> ''leb_size''
     = Some (decode_uint e (take 4 (drop 36 bs)))"
  "uint_field \<lparr>field_values = decode_fields e ubifs_sb_node_t bs, size_bytes = n\<rparr> ''leb_cnt''
     = Some (decode_uint e (take 4 (drop 40 bs)))"
  by (simp_all add: uint_field_def ubifs_sb_node_t_def decode_field_def)

lemma ubifs_calculate_chunk_block:
  assumes "take 4096 (drop (position file) (content file)) = bs" and "length bs = 4096"
    and "get_endian file BIG_ENDIAN_MAGIC = e"
  shows "parse_header ubifs_sb_node_t e file
           = Inr (\<lparr>field_values = decode_fields e ubifs_sb_node_t bs, size_bytes = 4096\<rparr>,
                  file\<lparr>position := position file + 4096\<rparr>)"
    and "ubifs_calculate_chunk file start
           = Inr (Some \<lparr>start_offset = start,
                        end_offset = start + decode_uint e (take 4 (drop 36 bs))
                                             * decode_uint e (take 4 (drop 40 bs))\<rparr>)"
proof -
  have "length (take 4096 (drop (position file) (content file))) = 4096"
    using assms(1,2) by simp
  then have l: "4096 \<le> length (content file) - position file"
    by simp
  show p: "parse_header ubifs_sb_node_t e file
           = Inr (\<lparr>field_values = decode_fields e ubifs_sb_node_t bs, size_bytes = 4096\<rparr>,
                  file\<lparr>position := position file + 4096\<rparr>)"
    using l assms(1) by (simp add: parse_header_Inr ubifs_sb_node_t_size)
  show "ubifs_calculate_chunk file start
           = Inr (Some \<lparr>start_offset = start,
                        end_offset = start + decode_uint e (take 4 (drop 36 bs))
                                             * decode_uint e (take 4 (drop 40 bs))\<rparr>)"
    by (simp add: ubifs_calculate_chunk_def assms(3) p ubifs_fields Let_def)
qed

lemma get_endian_magic:
  assumes "take 4 (drop (position file) (content file)) = m"
  shows "m = [0x06, 0x10, 0x18, 0x31] \<Longrightarrow> get_endian file BIG_ENDIAN_MAGIC = BIG"
    and "m = [0x31, 0x18, 0x10, 0x06] \<Longrightarrow> get_endian file BIG_ENDIAN_MAGIC = LITTLE"
  using assms by (simp_all add: get_endian_def read_def Let_def BIG_ENDIAN_MAGIC_def decode_uint_def)

lemma le_uint_zeros: "le_uint (replicate n 0) = 0"
  by (induction n) simp_all

text \<open>
  Claim C10. The UBIFS calculator has no rejection path: for every candidate whose
  superblock header (4096 bytes at the cursor) can be read, the header parses, both
  geometry fields are present and the calculator returns a chunk from \<open>start\<close> to
  \<open>start + leb_size * leb_cnt\<close>, never \<open>None\<close> and never an error; when
  \<open>leb_size * leb_cnt\<close> is 0 the chunk ends where it starts.
\<close>

theorem ubifs_no_rejection:
  assumes "position file + 4096 \<le> length (content file)"
  shows "\<exists>sb_header file1 leb_size leb_cnt.
           parse_header ubifs_sb_node_t (get_endian file BIG_ENDIAN_MAGIC) file
             = Inr (sb_header, file1) \<and>
           uint_field sb_header ''leb_size'' = Some leb_size \<and>
           uint_field sb_header ''leb_cnt'' = Some leb_cnt \<and>
           ubifs_calculate_chunk file start
             = Inr (Some \<lparr>start_offset = start, end_offset = start + leb_size * leb_cnt\<rparr>) \<and>
           (leb_size * leb_cnt = 0 \<longrightarrow>
              ubifs_calculate_chunk file start
                = Inr (Some \<lparr>start_offset = start, end_offset = start\<rparr>))"
proof -
  let ?bs = "take 4096 (drop (position file) (content file))"
  let ?e = "get_endian file BIG_ENDIAN_MAGIC"
  have l: "length ?bs = 4096"
    using assms by simp
  note b = ubifs_calculate_chunk_block(1) [OF refl l refl]
    ubifs_calculate_chunk_block(2) [OF refl l refl, of start]
  let ?h = "\<lparr>field_values = decode_fields ?e ubifs_sb_node_t ?bs, size_bytes = 4096\<rparr>"
  have "uint_field ?h ''leb_size'' = Some (decode_uint ?e (take 4 (drop 36 ?bs)))"
    "uint_field ?h ''leb_cnt'' = Some (decode_uint ?e (take 4 (drop 40 ?bs)))"
    by (rule ubifs_fields)+
  with b show ?thesis
    by (intro exI conjI) (assumption | simp)+
qed

theorem ubifs_no_rejection_witness:
  "ubifs_calculate_chunk \<lparr>content = ubifs_zero_example, position = 0\<rparr> 0
     = Inr (Some \<lparr>start_offset = 0, end_offset = 0\<rparr>)"
proof -
  let ?F = "\<lparr>content = ubifs_zero_example, position = 0\<rparr>"
  have a: "position ?F + 4096 \<le> length (content ?F)"
    by (simp add: ubifs_zero_example_def)
  from ubifs_no_rejection [OF a, of 0]
  obtain sb_header file1 leb_size leb_cnt where
    p: "parse_header ubifs_sb_node_t (get_endian ?F BIG_ENDIAN_MAGIC) ?F = Inr (sb_header, file1)"
    and f: "uint_field sb_header ''leb_size'' = Some leb_size"
    and z: "leb_size * leb_cnt = 0 \<longrightarrow>
              ubifs_calculate_chunk ?F 0 = Inr (Some \<lparr>start_offset = 0, end_offset = 0\<rparr>)"
    by (elim exE conjE) (rule that, assumption+)
  have e: "get_endian ?F BIG_ENDIAN_MAGIC = BIG"
    by (rule get_endian_magic(1) [OF refl]) (simp add: ubifs_zero_example_def)
  from p [unfolded e]
  have "sb_header = \<lparr>field_values = decode_fields BIG ubifs_sb_node_t ubifs_zero_example,
                        size_bytes = 4096\<rparr>"
    by (simp add: parse_header_Inr ubifs_sb_node_t_size ubifs_zero_example_def)
  with f have "leb_size = 0"
    by (simp add: ubifs_fields ubifs_zero_example_def decode_uint_def le_uint_zeros)
  with z show ?thesis by simp
qed

text \<open>
  Claim C9. The byte order is chosen from the four magic bytes at the cursor: the big-endian
  constant gives big-endian decoding of every integer field of the superblock, its
  byte-reversed counterpart gives little-endian decoding. For two superblocks that encode
  the same \<open>leb_size\<close> and \<open>leb_cnt\<close>, one in each byte order, the calculator returns the
  same chunk, of length \<open>leb_size * leb_cnt\<close>.
\<close>

theorem ubifs_byte_order:
  assumes "take 4096 (drop (position f) (content f)) = bs" and "length bs = 4096"
    and "take 4 bs = [0x06, 0x10, 0x18, 0x31]"
    and "take 4096 (drop (position f') (content f')) = bs'" and "length bs' = 4096"
    and "take 4 bs' = [0x31, 0x18, 0x10, 0x06]"
    and "decode_uint BIG (take 4 (drop 36 bs)) = leb_size"
    and "decode_uint LITTLE (take 4 (drop 36 bs')) = leb_size"
    and "decode_uint BIG (take 4 (drop 40 bs)) = leb_cnt"
    and "decode_uint LITTLE (take 4 (drop 40 bs')) = leb_cnt"
  shows "get_endian f BIG_ENDIAN_MAGIC = BIG \<and>
         get_endian f' BIG_ENDIAN_MAGIC = LITTLE \<and>
         parse_header ubifs_sb_node_t (get_endian f BIG_ENDIAN_MAGIC) f
           = Inr (\<lparr>field_values = decode_fields BIG ubifs_sb_node_t bs, size_bytes = 4096\<rparr>,
                  f\<lparr>position := position f + 4096\<rparr>) \<and>
         parse_header ubifs_sb_node_t (get_endian f' BIG_ENDIAN_MAGIC) f'
           = Inr (\<lparr>field_values = decode_fields LITTLE ubifs_sb_node_t bs', size_bytes = 4096\<rparr>,
                  f'\<lparr>position := position f' + 4096\<rparr>) \<and>
         ubifs_calculate_chunk f start
           = Inr (Some \<lparr>start_offset = start, end_offset = start + leb_size * leb_cnt\<rparr>) \<and>
         ubifs_calculate_chunk f' start
           = Inr (Some \<lparr>start_offset = start, end_offset = start + leb_size * leb_cnt\<rparr>)"
proof -
  have "take 4 (drop (position f) (content f)) = take 4 bs"
    unfolding assms(1) [symmetric] by simp
  then have m: "take 4 (drop (position f) (content f)) = [0x06, 0x10, 0x18, 0x31]"
    by (simp only: assms(3))
  have "take 4 (drop (position f') (content f')) = take 4 bs'"
    unfolding assms(4) [symmetric] by simp
  then have m': "take 4 (drop (position f') (content f')) = [0x31, 0x18, 0x10, 0x06]"
    by (simp only: assms(6))
  have e: "get_endian f BIG_ENDIAN_MAGIC = BIG"
    by (rule get_endian_magic(1) [OF m refl])
  have e': "get_endian f' BIG_ENDIAN_MAGIC = LITTLE"
    by (rule get_endian_magic(2) [OF m' refl])
  note b = ubifs_calculate_chunk_block(1) [OF assms(1,2) e]
    ubifs_calculate_chunk_block(2) [OF assms(1,2) e, of start]
  note b' = ubifs_calculate_chunk_block(1) [OF assms(4,5) e']
    ubifs_calculate_chunk_block(2) [OF assms(4,5) e', of start]
  show ?thesis
    using b b' e e' by (simp add: assms(7-10))
qed

theorem ubifs_byte_order_witness:
  "get_endian \<lparr>content = ubifs_be_example, position = 0\<rparr> BIG_ENDIAN_MAGIC = BIG \<and>
   get_endian \<lparr>content = ubifs_le_example, position = 0\<rparr> BIG_ENDIAN_MAGIC = LITTLE \<and>
   ubifs_calculate_chunk \<lparr>content = ubifs_be_example, position = 0\<rparr> 0
     = Inr (Some \<lparr>start_offset = 0, end_offset = 4096 * 3\<rparr>) \<and>
   ubifs_calculate_chunk \<lparr>content = ubifs_le_example, position = 0\<rparr> 0
     = Inr (Some \<lparr>start_offset = 0, end_offset = 4096 * 3\<rparr>)"
proof -
  let ?f = "\<lparr>content = ubifs_be_example, position = 0\<rparr>"
  let ?f' = "\<lparr>content = ubifs_le_example, position = 0\<rparr>"
  have 1: "take 4096 (drop (position ?f) (content ?f)) = ubifs_be_example"
    by (simp add: ubifs_be_example_def)
  have 2: "length ubifs_be_example = 4096"
    by (simp add: ubifs_be_example_def)
  have 3: "take 4 ubifs_be_example = [0x06, 0x10, 0x18, 0x31]"
    by (simp add: ubifs_be_example_def)
  have 4: "take 4096 (drop (position ?f') (content ?f')) = ubifs_le_example"
    by (simp add: ubifs_le_example_def)
  have 5: "length ubifs_le_example = 4096"
    by (simp add: ubifs_le_example_def)
  have 6: "take 4 ubifs_le_example = [0x31, 0x18, 0x10, 0x06]"
    by (simp add: ubifs_le_example_def)
  have 7: "decode_uint BIG (take 4 (drop 36 ubifs_be_example)) = 4096"
    by (simp add: ubifs_be_example_def decode_uint_def)
  have 8: "decode_uint LITTLE (take 4 (drop 36 ubifs_le_example)) = 4096"
    by (simp add: ubifs_le_example_def decode_uint_def)
  have 9: "decode_uint BIG (take 4 (drop 40 ubifs_be_example)) = 3"
    by (simp add: ubifs_be_example_def decode_uint_def)
  have 10: "decode_uint LITTLE (take 4 (drop 40 ubifs_le_example)) = 3"
    by (simp add: ubifs_le_example_def decode_uint_def)
  from ubifs_byte_order [OF 1 2 3 4 5 6 7 8 9 10, of 0]
  show ?thesis by simp
qed

section \<open>UBI: stride inference and walk\<close>

lemma marker_at_bound: "marker_at file p \<Longrightarrow> p < length (content file)"
  by (cases "p < length (content file)") (auto simp: marker_at_def UBI_EC_HEADER_def)

lemma iterate_patterns_iff:
  "p \<in> set (iterate_patterns file UBI_EC_HEADER) \<longleftrightarrow> marker_at file p"
  using marker_at_bound [of "file" p] by (auto simp: iterate_patterns_def marker_at_def)

lemma iterate_patterns_increasing: "sorted_wrt (<) (iterate_patterns file pattern)"
  unfolding iterate_patterns_def by (rule sorted_wrt_filter) simp

lemma get_intervals_nth:
  "d \<in> set (get_intervals xs) \<Longrightarrow> \<exists>i. Suc i < length xs \<and> d = xs ! Suc i - xs ! i"
proof (induction xs rule: get_intervals.induct)
  case (1 v n vs)
  from "1.prems" consider "d = n - v" | "d \<in> set (get_intervals (n # vs))"
    by auto
  then show ?case
  proof cases
    case 1
    then show ?thesis by (intro exI [of _ 0]) simp
  next
    case 2
    with "1.IH" obtain i where "Suc i < length (n # vs)" "d = (n # vs) ! Suc i - (n # vs) ! i"
      by blast
    then show ?thesis by (intro exI [of _ "Suc i"]) simp
  qed
qed simp_all

lemma get_intervals_empty: "get_intervals xs = [] \<longleftrightarrow> length xs < 2"
  by (induction xs rule: get_intervals.induct) simp_all

lemma get_intervals_positive:
  assumes "sorted_wrt (<) xs" and "d \<in> set (get_intervals xs)"
  shows "0 < d"
proof -
  from get_intervals_nth [OF assms(2)] obtain i where
    i: "Suc i < length xs" "d = xs ! Suc i - xs ! i"
    by blast
  from assms(1) i(1) have "xs ! i < xs ! Suc i"
    by (simp add: sorted_wrt_iff_nth_less)
  with i(2) show ?thesis by simp
qed

lemma fold_mode:
  assumes "b \<in> set xs" and "set ys \<subseteq> set xs"
  defines "r \<equiv> fold (\<lambda>y best. if count_list xs best < count_list xs y then y else best) ys b"
  shows "r \<in> set xs \<and> count_list xs b \<le> count_list xs r \<and>
         (\<forall>y \<in> set ys. count_list xs y \<le> count_list xs r)"
  using assms(1,2) unfolding r_def
proof (induction ys arbitrary: b)
  case Nil
  then show ?case by simp
next
  case (Cons y ys)
  let ?b = "if count_list xs b < count_list xs y then y else b"
  have "?b \<in> set xs" "set ys \<subseteq> set xs"
    using Cons.prems by auto
  from Cons.IH [OF this] have
    ih: "fold (\<lambda>y best. if count_list xs best < count_list xs y then y else best) ys ?b \<in> set xs"
      "count_list xs ?b \<le> count_list xs
         (fold (\<lambda>y best. if count_list xs best < count_list xs y then y else best) ys ?b)"
      "\<forall>y \<in> set ys. count_list xs y \<le> count_list xs
         (fold (\<lambda>y best. if count_list xs best < count_list xs y then y else best) ys ?b)"
    by blast+
  have "count_list xs b \<le> count_list xs ?b" "count_list xs y \<le> count_list xs ?b"
    by simp_all
  with ih show ?case
    by (auto intro: order_trans)
qed

lemma mode_most_common:
  assumes "xs \<noteq> []"
  shows "\<exists>m. mode xs = Some m \<and> m \<in> set xs \<and> (\<forall>x. count_list xs x \<le> count_list xs m)"
proof -
  from assms obtain x xs' where xs: "xs = x # xs'"
    by (cases xs) auto
  let ?m = "fold (\<lambda>y best. if count_list xs best < count_list xs y then y else best) xs x"
  have m: "mode xs = Some ?m"
    by (simp add: mode_def xs)
  have "x \<in> set xs" "set xs \<subseteq> set xs"
    by (simp_all add: xs)
  from fold_mode [OF this] have
    a: "?m \<in> set xs" and b: "\<forall>y \<in> set xs. count_list xs y \<le> count_list xs ?m"
    by blast+
  have "count_list xs y \<le> count_list xs ?m" for y
  proof (cases "y \<in> set xs")
    case True
    with b show ?thesis by blast
  next
    case False
    then have "count_list xs y = 0"
      by (simp add: count_list_0_iff)
    then show ?thesis by simp
  qed
  with m a show ?thesis by blast
qed

lemma walk_ubi_step:
  "walk_ubi (seek p file) peb_size =
     (if marker_at file p then walk_ubi (seek (p + peb_size) file) peb_size else Some p)"
  by (subst walk_ubi.simps)
     (auto simp: marker_at_def read_def seek_def tell_def Let_def UBI_EC_HEADER_def)

lemma walk_ubi_returns:
  assumes "0 < peb_size"
  shows "\<exists>k. walk_ubi (seek p file) peb_size = Some (p + k * peb_size) \<and>
             (\<forall>i<k. marker_at file (p + i * peb_size)) \<and>
             \<not> marker_at file (p + k * peb_size)"
proof (induction "length (content file) - p" arbitrary: p rule: less_induct)
  case less
  show ?case
  proof (cases "marker_at file p")
    case False
    then have "walk_ubi (seek p file) peb_size = Some (p + 0 * peb_size)"
      by (simp add: walk_ubi_step)
    with False show ?thesis
      by (intro exI [of _ 0]) simp
  next
    case True
    then have "p < length (content file)"
      by (rule marker_at_bound)
    with assms have "length (content file) - (p + peb_size) < length (content file) - p"
      by simp
    from less [OF this] obtain k where
      k: "walk_ubi (seek (p + peb_size) file) peb_size = Some (p + peb_size + k * peb_size)"
         "\<forall>i<k. marker_at file (p + peb_size + i * peb_size)"
         "\<not> marker_at file (p + peb_size + k * peb_size)"
      by blast
    have "walk_ubi (seek p file) peb_size = Some (p + Suc k * peb_size)"
      using True k(1) by (simp add: walk_ubi_step add.assoc)
    moreover have "marker_at file (p + i * peb_size)" if "i < Suc k" for i
    proof (cases i)
      case 0
      with True show ?thesis by simp
    next
      case (Suc j)
      with that k(2) have "marker_at file (p + peb_size + j * peb_size)"
        by simp
      with Suc show ?thesis by (simp add: add.assoc)
    qed
    moreover have "\<not> marker_at file (p + Suc k * peb_size)"
      using k(3) by (simp add: add.assoc)
    ultimately show ?thesis
      by blast
  qed
qed

lemma guess_peb_size_few:
  "length (iterate_patterns file UBI_EC_HEADER) < 2 \<Longrightarrow> guess_peb_size file = Inl PEBSizeNotFound"
  by (simp add: guess_peb_size_def Let_def get_intervals_empty)

lemma guess_peb_size_mode:
  assumes "2 \<le> length (iterate_patterns file UBI_EC_HEADER)"
  shows "\<exists>peb_size. guess_peb_size file = Inr peb_size \<and> 0 < peb_size \<and>
           peb_size \<in> set (get_intervals (iterate_patterns file UBI_EC_HEADER)) \<and>
           (\<forall>d. count_list (get_intervals (iterate_patterns file UBI_EC_HEADER)) d
                 \<le> count_list (get_intervals (iterate_patterns file UBI_EC_HEADER)) peb_size)"
proof -
  let ?ds = "get_intervals (iterate_patterns file UBI_EC_HEADER)"
  from assms have ne: "?ds \<noteq> []"
    by (simp add: get_intervals_empty)
  from mode_most_common [OF ne] obtain m where
    m: "mode ?ds = Some m" "m \<in> set ?ds" "\<forall>x. count_list ?ds x \<le> count_list ?ds m"
    by blast
  have "0 < m"
    using iterate_patterns_increasing m(2) by (rule get_intervals_positive)
  moreover have "guess_peb_size file = Inr m"
    using ne m(1) by (simp add: guess_peb_size_def Let_def)
  ultimately show ?thesis
    using m(2,3) by blast
qed

lemma get_intervals_regular:
  assumes "d \<in> set (get_intervals (map (\<lambda>i. start + i * S) [0..<N]))"
  shows "d = S"
proof -
  from get_intervals_nth [OF assms] obtain i where
    "Suc i < N" "d = map (\<lambda>i. start + i * S) [0..<N] ! Suc i - map (\<lambda>i. start + i * S) [0..<N] ! i"
    by auto
  then show ?thesis by simp
qed

text \<open>
  Claim C8. With fewer than two marker occurrences in the source the calculator returns
  no chunk. Otherwise the inferred stride is a most common value of the distances between
  each marker occurrence and the next (it occurs among them, and no distance occurs more
  often), it is positive, and the walk returns: the chunk ends at \<open>start + k * stride\<close>,
  where the windows at \<open>start\<close>, \<open>start + stride\<close>, ... match the marker \<open>k\<close> times and the
  next one does not. Hence, when the markers are exactly at the \<open>N \<ge> 2\<close> block starts
  \<open>start + i * S\<close>, the chunk ends at \<open>start + N * S\<close>.
\<close>

theorem ubi_chunk_by_stride:
  "(length (iterate_patterns file UBI_EC_HEADER) < 2 \<longrightarrow>
      ubi_calculate_chunk file start = Some (Inr None)) \<and>
   (2 \<le> length (iterate_patterns file UBI_EC_HEADER) \<longrightarrow>
      (\<exists>peb_size k.
         guess_peb_size file = Inr peb_size \<and> 0 < peb_size \<and>
         peb_size \<in> set (get_intervals (iterate_patterns file UBI_EC_HEADER)) \<and>
         (\<forall>d. count_list (get_intervals (iterate_patterns file UBI_EC_HEADER)) d
               \<le> count_list (get_intervals (iterate_patterns file UBI_EC_HEADER)) peb_size) \<and>
         ubi_calculate_chunk file start
           = Some (Inr (Some \<lparr>start_offset = start, end_offset = start + k * peb_size\<rparr>)) \<and>
         (\<forall>i<k. marker_at file (start + i * peb_size)) \<and>
         \<not> marker_at file (start + k * peb_size))) \<and>
   (iterate_patterns file UBI_EC_HEADER = map (\<lambda>i. start + i * S) [0..<N] \<and> 2 \<le> N \<longrightarrow>
      ubi_calculate_chunk file start
        = Some (Inr (Some \<lparr>start_offset = start, end_offset = start + N * S\<rparr>)))"
proof (intro conjI impI)
  assume "length (iterate_patterns file UBI_EC_HEADER) < 2"
  then show "ubi_calculate_chunk file start = Some (Inr None)"
    by (simp add: ubi_calculate_chunk_def guess_peb_size_few)
next
  assume two: "2 \<le> length (iterate_patterns file UBI_EC_HEADER)"
  from guess_peb_size_mode [OF two] obtain peb_size where
    g: "guess_peb_size file = Inr peb_size" "0 < peb_size"
       "peb_size \<in> set (get_intervals (iterate_patterns file UBI_EC_HEADER))"
       "\<forall>d. count_list (get_intervals (iterate_patterns file UBI_EC_HEADER)) d
             \<le> count_list (get_intervals (iterate_patterns file UBI_EC_HEADER)) peb_size"
    by blast
  from walk_ubi_returns [OF g(2), of start "file"] obtain k where
    k: "walk_ubi (seek start file) peb_size = Some (start + k * peb_size)"
       "\<forall>i<k. marker_at file (start + i * peb_size)"
       "\<not> marker_at file (start + k * peb_size)"
    by blast
  have "ubi_calculate_chunk file start
          = Some (Inr (Some \<lparr>start_offset = start, end_offset = start + k * peb_size\<rparr>))"
    by (simp add: ubi_calculate_chunk_def g(1) k(1))
  with g k(2,3) show "\<exists>peb_size k.
         guess_peb_size file = Inr peb_size \<and> 0 < peb_size \<and>
         peb_size \<in> set (get_intervals (iterate_patterns file UBI_EC_HEADER)) \<and>
         (\<forall>d. count_list (get_intervals (iterate_patterns file UBI_EC_HEADER)) d
               \<le> count_list (get_intervals (iterate_patterns file UBI_EC_HEADER)) peb_size) \<and>
         ubi_calculate_chunk file start
           = Some (Inr (Some \<lparr>start_offset = start, end_offset = start + k * peb_size\<rparr>)) \<and>
         (\<forall>i<k. marker_at file (start + i * peb_size)) \<and>
         \<not> marker_at file (start + k * peb_size)"
    by blast
next
  assume a: "iterate_patterns file UBI_EC_HEADER = map (\<lambda>i. start + i * S) [0..<N] \<and> 2 \<le> N"
  then have offs: "iterate_patterns file UBI_EC_HEADER = map (\<lambda>i. start + i * S) [0..<N]"
    and N: "2 \<le> N"
    by blast+
  have two: "2 \<le> length (iterate_patterns file UBI_EC_HEADER)"
    using N by (simp add: offs)
  from guess_peb_size_mode [OF two] obtain peb_size where
    g: "guess_peb_size file = Inr peb_size" "0 < peb_size"
       "peb_size \<in> set (get_intervals (iterate_patterns file UBI_EC_HEADER))"
    by blast
  from g(3) have S: "peb_size = S"
    unfolding offs by (rule get_intervals_regular)
  have marker: "marker_at file p \<longleftrightarrow> (\<exists>i<N. p = start + i * S)" for p
    unfolding iterate_patterns_iff [symmetric] offs by auto
  from walk_ubi_returns [OF g(2), of start "file"] obtain k where
    k: "walk_ubi (seek start file) peb_size = Some (start + k * peb_size)"
       "\<forall>i<k. marker_at file (start + i * peb_size)"
       "\<not> marker_at file (start + k * peb_size)"
    by blast
  have pos: "0 < S"
    using g(2) S by simp
  have "\<not> k < N"
    using k(3) unfolding S marker by blast
  moreover have "\<not> N < k"
  proof
    assume "N < k"
    with k(2) have "marker_at file (start + N * S)"
      unfolding S by blast
    then obtain i where "i < N" "start + N * S = start + i * S"
      unfolding marker by blast
    with pos show False by simp
  qed
  ultimately have "k = N"
    by simp
  then show "ubi_calculate_chunk file start
        = Some (Inr (Some \<lparr>start_offset = start, end_offset = start + N * S\<rparr>))"
    using g(1) k(1) unfolding S by (simp add: ubi_calculate_chunk_def)
qed

lemma ubi_example_offsets:
  "iterate_patterns \<lparr>content = ubi_example, position = 0\<rparr> UBI_EC_HEADER = [0, 8, 16]"
  by code_simp

lemma ubi_single_offsets:
  "iterate_patterns \<lparr>content = take 12 ubi_example, position = 0\<rparr> UBI_EC_HEADER = [0, 8]"
  "iterate_patterns \<lparr>content = take 8 ubi_example, position = 0\<rparr> UBI_EC_HEADER = [0]"
  by code_simp+

theorem ubi_chunk_by_stride_witness:
  "ubi_calculate_chunk \<lparr>content = take 8 ubi_example, position = 0\<rparr> 0 = Some (Inr None) \<and>
   ubi_calculate_chunk \<lparr>content = ubi_example, position = 0\<rparr> 0
     = Some (Inr (Some \<lparr>start_offset = 0, end_offset = 0 + 3 * 8\<rparr>)) \<and>
   (\<exists>peb_size. guess_peb_size \<lparr>content = ubi_example, position = 0\<rparr> = Inr peb_size \<and>
      0 < peb_size)"
proof -
  let ?F = "\<lparr>content = ubi_example, position = 0\<rparr>"
  let ?G = "\<lparr>content = take 8 ubi_example, position = 0\<rparr>"
  have 1: "length (iterate_patterns ?G UBI_EC_HEADER) < 2"
    by (simp add: ubi_single_offsets)
  have 2: "2 \<le> length (iterate_patterns ?F UBI_EC_HEADER)"
    by (simp add: ubi_example_offsets)
  have "map (\<lambda>i. 0 + i * 8) [0..<3] = [0, 8, 16::nat]"
    by (simp add: upt_rec)
  then have 3: "iterate_patterns ?F UBI_EC_HEADER = map (\<lambda>i. 0 + i * 8) [0..<3] \<and> (2::nat) \<le> 3"
    by (simp only: ubi_example_offsets) simp
  from ubi_chunk_by_stride [of ?G 0 0 0] 1
  have a: "ubi_calculate_chunk ?G 0 = Some (Inr None)"
    by blast
  from ubi_chunk_by_stride [of ?F 0 8 3] 3
  have b: "ubi_calculate_chunk ?F 0 = Some (Inr (Some \<lparr>start_offset = 0, end_offset = 0 + 3 * 8\<rparr>))"
    by blast
  from ubi_chunk_by_stride [of ?F 0 8 3] 2
  have c: "\<exists>peb_size. guess_peb_size ?F = Inr peb_size \<and> 0 < peb_size"
    by blast
  from a b c show ?thesis by blast
qed

section \<open>Gzip: end of the member, padding, failures\<close>

lemma read_content: "read n f = (bs, f') \<Longrightarrow> content f' = content f \<and> position f \<le> position f'"
  by (auto simp: read_def Let_def)

lemma read_exact_Inr:
  "read_exact n f = Inr (bs, f') \<Longrightarrow>
     content f' = content f \<and> position f' = position f + n \<and> length bs = n"
  by (auto simp: read_exact_def read_def Let_def min_def split: if_splits)

lemma skip_zero_terminated_content:
  "content (skip_zero_terminated f) = content f"
  "position f \<le> position (skip_zero_terminated f)"
  by (simp_all add: skip_zero_terminated_def Let_def)

lemma gzip_read_header_mismatch:
  "take 2 (drop (position f) (content f)) \<noteq> [0x1f, 0x8b] \<Longrightarrow>
     \<exists>f1. gzip_read_header f = Inr (False, f1)"
  by (simp add: gzip_read_header_def read_def Let_def)

lemma skip_extra_field_Inr:
  "skip_extra_field f = Inr f' \<Longrightarrow> content f' = content f \<and> position f \<le> position f'"
  by (auto simp: skip_extra_field_def split: sum.splits dest!: read_exact_Inr)

lemma skip_optional_fields_Inr:
  assumes "skip_optional_fields flag f = Inr f'"
  shows "content f' = content f \<and> position f \<le> position f'"
proof -
  from assms obtain f1 where
    1: "(if flag AND 4 \<noteq> 0 then skip_extra_field f else Inr f) = Inr f1"
    by (auto simp: skip_optional_fields_def split: sum.splits)
  then have c1: "content f1 = content f \<and> position f \<le> position f1"
    by (auto split: if_splits dest: skip_extra_field_Inr)
  define f2 where "f2 = (if flag AND 8 \<noteq> 0 then skip_zero_terminated f1 else f1)"
  define f3 where "f3 = (if flag AND 16 \<noteq> 0 then skip_zero_terminated f2 else f2)"
  have c2: "content f2 = content f \<and> position f \<le> position f2"
    using c1 skip_zero_terminated_content [of f1] by (auto simp: f2_def)
  have c3: "content f3 = content f \<and> position f \<le> position f3"
    using c2 skip_zero_terminated_content [of f2] by (auto simp: f3_def)
  from assms 1 have "(if flag AND 2 \<noteq> 0
              then (case read_exact 2 f3 of
                      Inl e \<Rightarrow> Inl e
                    | Inr (crc16, f4) \<Rightarrow> Inr f4)
              else Inr f3) = Inr f'"
    unfolding skip_optional_fields_def f2_def f3_def by (simp add: Let_def)
  with c3 show ?thesis
    by (auto split: if_splits sum.splits dest!: read_exact_Inr)
qed

lemma gzip_read_header_True:
  assumes "gzip_read_header f = Inr (True, f1)"
  shows "content f1 = content f \<and> position f + 10 \<le> position f1"
proof -
  obtain magic fa where r: "read 2 f = (magic, fa)"
    by (cases "read 2 f")
  from assms r have m: "magic = [0x1f, 0x8b]"
    by (auto simp: gzip_read_header_def split: if_splits)
  from r m have t: "take 2 (drop (position f) (content f)) = [0x1f, 0x8b]"
    by (auto simp: read_def Let_def)
  have "length (take 2 (drop (position f) (content f))) = 2"
    by (simp only: t) simp
  then have "min (length (content f) - position f) 2 = 2"
    by simp
  with r have fa: "content fa = content f" "position fa = position f + 2"
    by (auto simp: read_def Let_def)
  from assms r m obtain fixed f2 where e: "read_exact 8 fa = Inr (fixed, f2)"
    and o: "skip_optional_fields (fixed ! 1) f2 = Inr f1"
    by (auto simp: gzip_read_header_def split: sum.splits)
  from read_exact_Inr [OF e] fa have f2: "content f2 = content f" "position f2 = position f + 10"
    by simp_all
  from skip_optional_fields_Inr [OF o] f2 show ?thesis
    by simp
qed

lemma read_until_eof_Inr:
  "read_until_eof engine fed file = Inr (unused, file') \<Longrightarrow>
     content file' = content file \<and> position file \<le> position file' \<and>
     unused \<le> length fed + (position file' - position file)"
proof (induction engine fed "file" rule: read_until_eof.induct)
  case (1 engine fed f)
  obtain buf file1 where r: "read DEFAULT_BUFFER_SIZE f = (buf, file1)"
    by (cases "read DEFAULT_BUFFER_SIZE f")
  then have f1: "content file1 = content f" "position file1 = position f + length buf"
    by (auto simp: read_def Let_def)
  show ?case
  proof (cases "engine (fed @ buf)")
    case (StreamEnd n)
    with "1.prems" r f1 show ?thesis
      by (subst (asm) read_until_eof.simps) auto
  next
    case DataError
    with "1.prems" r show ?thesis
      by (subst (asm) read_until_eof.simps) simp
  next
    case ChecksumMismatch
    with "1.prems" r show ?thesis
      by (subst (asm) read_until_eof.simps) simp
  next
    case NeedInput
    with "1.prems" r have ne: "buf \<noteq> []"
      and rec: "read_until_eof engine (fed @ buf) file1 = Inr (unused, file')"
      by (subst (asm) read_until_eof.simps, simp split: if_splits)+
    from "1.IH" [OF r [symmetric] NeedInput ne rec] f1
    show ?thesis by auto
  qed
qed

lemma read_until_past_zero:
  assumes "read_until_past f [0] = e"
  shows "position f \<le> e \<and>
         (\<forall>i. position f \<le> i \<and> i < e \<longrightarrow> i < length (content f) \<and> content f ! i = 0) \<and>
         (e < length (content f) \<longrightarrow> content f ! e \<noteq> 0)"
proof -
  let ?xs = "drop (position f) (content f)"
  let ?t = "takeWhile (\<lambda>b. b \<in> set [0]) ?xs"
  have e: "e = position f + length ?t"
    using assms by (simp add: read_until_past_def)
  have le: "length ?t \<le> length ?xs"
    by (rule length_takeWhile_le)
  have a: "i < length (content f) \<and> content f ! i = 0" if "position f \<le> i" "i < e" for i
  proof -
    from that e have j: "i - position f < length ?t"
      by simp
    with le have l: "i - position f < length ?xs"
      by simp
    from j have "?t ! (i - position f) \<in> set ?t"
      by (rule nth_mem)
    then have "?t ! (i - position f) = 0"
      by (auto dest: set_takeWhileD)
    moreover from j have "?t ! (i - position f) = ?xs ! (i - position f)"
      by (rule takeWhile_nth)
    ultimately have "?xs ! (i - position f) = 0"
      by simp
    with l that(1) show ?thesis
      by simp
  qed
  have b: "content f ! e \<noteq> 0" if "e < length (content f)"
  proof -
    from that e have "length ?t < length ?xs"
      by simp
    then have "\<not> (?xs ! length ?t \<in> set [0])"
      by (rule nth_length_takeWhile)
    moreover from that e have "?xs ! length ?t = content f ! e"
      by simp
    ultimately show ?thesis
      by simp
  qed
  from e a b show ?thesis
    by auto
qed

lemma takeWhile_zero_run:
  "nz \<noteq> (0::byte) \<Longrightarrow> takeWhile (\<lambda>b. b = 0) (replicate k 0 @ nz # rest) = replicate k 0"
  by (induction k) simp_all

lemma read_until_past_run:
  assumes "drop (position f) (content f) = replicate k 0 @ nz # rest" and "nz \<noteq> 0"
  shows "read_until_past f [0] = position f + k"
  using assms by (simp add: read_until_past_def takeWhile_zero_run)

lemma read_until_eof_stream:
  assumes eng: "\<forall>m \<le> length input.
                  engine (take m input) = (if m < n then NeedInput else StreamEnd n)"
    and n: "n \<le> length input"
    and input: "input = drop p0 (content f)"
    and pos: "position f = p0 + j"
    and j: "j \<le> length input"
  shows "\<exists>m f'. n \<le> m \<and> m \<le> length input \<and>
           read_until_eof engine (take j input) f = Inr (m - n, f') \<and>
           position f' = p0 + m \<and> content f' = content f"
  using input pos j
proof (induction "length input - j" arbitrary: j f rule: less_induct)
  case less
  define buf where "buf = take DEFAULT_BUFFER_SIZE (drop j input)"
  define f1 where "f1 = f\<lparr>position := position f + length buf\<rparr>"
  define j' where "j' = j + length buf"
  have r: "read DEFAULT_BUFFER_SIZE f = (buf, f1)"
    using less.prems(1,2) by (simp add: read_def Let_def buf_def f1_def add.commute)
  have fed: "take j input @ buf = take j' input"
    unfolding buf_def j'_def
    by (cases "DEFAULT_BUFFER_SIZE \<le> length input - j")
       (simp_all add: take_add min_def)
  have j'le: "j' \<le> length input"
    using less.prems(3) by (simp add: j'_def buf_def)
  from eng j'le have e: "engine (take j' input) = (if j' < n then NeedInput else StreamEnd n)"
    by blast
  have f1: "position f1 = p0 + j'" "content f1 = content f"
    using less.prems(2) by (simp_all add: f1_def j'_def)
  show ?case
  proof (cases "j' < n")
    case False
    then have "read_until_eof engine (take j input) f = Inr (j' - n, f1)"
      using r fed e j'le by (subst read_until_eof.simps) simp
    with False j'le f1 show ?thesis
      by (intro exI [of _ j'] exI [of _ f1]) simp
  next
    case True
    with n j'le have "j' < length input"
      by simp
    then have ne: "buf \<noteq> []" and lt: "j < j'"
      by (auto simp: j'_def buf_def DEFAULT_BUFFER_SIZE_def)
    have step: "read_until_eof engine (take j input) f = read_until_eof engine (take j' input) f1"
      using r fed e True ne by (subst read_until_eof.simps) simp
    have "length input - j' < length input - j"
      using lt j'le by simp
    from less.hyps [OF this _ f1(1) j'le] less.prems(1) f1(2)
    obtain m f' where "n \<le> m" "m \<le> length input"
      "read_until_eof engine (take j' input) f1 = Inr (m - n, f')"
      "position f' = p0 + m" "content f' = content f1"
      by auto
    with step f1(2) show ?thesis
      by (intro exI [of _ m] exI [of _ f']) simp
  qed
qed

lemma gzip_end_after_decode:
  assumes hdr: "gzip_read_header file = Inr (True, file1)"
    and dec: "read_until_eof engine [] file1 = Inr (unused, file2)"
  shows "unused \<le> position file2 \<and>
         gzip_calculate_chunk engine file start
           = Inr (Some \<lparr>start_offset = start,
                        end_offset = read_until_past
                          (file2\<lparr>position := position file2 + GZIP2_FOOTER_LEN - unused\<rparr>) [0]\<rparr>)"
proof -
  from read_until_eof_Inr [OF dec] have u: "unused \<le> position file2"
    by auto
  then have "seek_cur (int GZIP2_FOOTER_LEN - int unused) file2
               = Inr (file2\<lparr>position := position file2 + GZIP2_FOOTER_LEN - unused\<rparr>)"
    by (simp add: seek_cur_def nat_diff_distrib' nat_add_distrib)
  with u hdr dec show ?thesis
    by (simp add: gzip_calculate_chunk_def Let_def)
qed

text \<open>
  Claim C2. After the header was read and one member was decoded, the calculator seeks
  forward by 8 bytes minus the number of unused bytes (never backwards beyond the start of
  the file), and the chunk ends at the first position from there on that holds no zero byte
  or lies at the end of the source. Hence, for a source made of \<open>pre\<close>, a member (header,
  payload, 8-byte trailer), \<open>k\<close> zero bytes and then a non-zero byte, where the engine
  reports the end of the stream exactly once it has been fed the whole payload, the
  calculator called at offset \<open>length pre\<close> returns the chunk from there to
  \<open>length pre + member length + k\<close>.
\<close>

theorem gzip_chunk_end:
  assumes "gzip_read_header file = Inr (True, file1)"
  shows "(\<forall>unused file2.
            read_until_eof engine [] file1 = Inr (unused, file2) \<longrightarrow>
            unused \<le> position file2 \<and>
            (\<exists>e. gzip_calculate_chunk engine file start
                    = Inr (Some \<lparr>start_offset = start, end_offset = e\<rparr>) \<and>
                 position file2 + GZIP2_FOOTER_LEN - unused \<le> e \<and>
                 (\<forall>i. position file2 + GZIP2_FOOTER_LEN - unused \<le> i \<and> i < e \<longrightarrow>
                        i < length (content file) \<and> content file ! i = 0) \<and>
                 (e < length (content file) \<longrightarrow> content file ! e \<noteq> 0))) \<and>
         (content file = pre @ hdr @ payload @ trailer @ replicate k 0 @ nz # rest \<and>
          position file = length pre \<and> position file1 = length pre + length hdr \<and>
          length trailer = GZIP2_FOOTER_LEN \<and> nz \<noteq> 0 \<and>
          (\<forall>m \<le> length (payload @ trailer @ replicate k 0 @ nz # rest).
             engine (take m (payload @ trailer @ replicate k 0 @ nz # rest))
               = (if m < length payload then NeedInput else StreamEnd (length payload))) \<longrightarrow>
          gzip_calculate_chunk engine file (length pre)
            = Inr (Some \<lparr>start_offset = length pre,
                         end_offset = length pre
                                      + (length hdr + length payload + GZIP2_FOOTER_LEN) + k\<rparr>))"
proof (intro conjI allI impI)
  fix unused file2
  assume dec: "read_until_eof engine [] file1 = Inr (unused, file2)"
  note a = gzip_end_after_decode [OF assms dec, of start]
  from a show "unused \<le> position file2"
    by simp
  let ?f3 = "file2\<lparr>position := position file2 + GZIP2_FOOTER_LEN - unused\<rparr>"
  have c: "content ?f3 = content file"
    using read_until_eof_Inr [OF dec] gzip_read_header_True [OF assms] by simp
  from read_until_past_zero [OF refl, of ?f3] a
  show "\<exists>e. gzip_calculate_chunk engine file start
                = Inr (Some \<lparr>start_offset = start, end_offset = e\<rparr>) \<and>
             position file2 + GZIP2_FOOTER_LEN - unused \<le> e \<and>
             (\<forall>i. position file2 + GZIP2_FOOTER_LEN - unused \<le> i \<and> i < e \<longrightarrow>
                    i < length (content file) \<and> content file ! i = 0) \<and>
             (e < length (content file) \<longrightarrow> content file ! e \<noteq> 0)"
    unfolding c by (intro exI [of _ "read_until_past ?f3 [0]"]) simp
next
  let ?input = "payload @ trailer @ replicate k 0 @ nz # rest"
  assume h: "content file = pre @ hdr @ payload @ trailer @ replicate k 0 @ nz # rest \<and>
          position file = length pre \<and> position file1 = length pre + length hdr \<and>
          length trailer = GZIP2_FOOTER_LEN \<and> nz \<noteq> 0 \<and>
          (\<forall>m \<le> length ?input.
             engine (take m ?input)
               = (if m < length payload then NeedInput else StreamEnd (length payload)))"
  from gzip_read_header_True [OF assms] have c1: "content file1 = content file"
    by simp
  have input: "?input = drop (length pre + length hdr) (content file1)"
    using h c1 by simp
  have eng: "\<forall>m \<le> length ?input.
             engine (take m ?input)
               = (if m < length payload then NeedInput else StreamEnd (length payload))"
    using h by blast
  have n: "length payload \<le> length ?input"
    by simp
  have pos: "position file1 = (length pre + length hdr) + 0"
    using h by simp
  from read_until_eof_stream [OF eng n input pos]
  obtain m file2 where m: "length payload \<le> m"
    and dec: "read_until_eof engine [] file1 = Inr (m - length payload, file2)"
    and p2: "position file2 = length pre + length hdr + m"
    and c2: "content file2 = content file1"
    by auto
  let ?f3 = "file2\<lparr>position := position file2 + GZIP2_FOOTER_LEN - (m - length payload)\<rparr>"
  have p3: "position ?f3 = length (pre @ hdr @ payload @ trailer)"
    using m p2 h by simp
  have "content ?f3 = (pre @ hdr @ payload @ trailer) @ replicate k 0 @ nz # rest"
    using c1 c2 h by simp
  then have "drop (position ?f3) (content ?f3) = replicate k 0 @ nz # rest"
    unfolding p3 by (simp only: append_eq_conv_conj [THEN iffD1, THEN conjunct2] drop_append) simp
  moreover have "nz \<noteq> 0"
    using h by blast
  ultimately have "read_until_past ?f3 [0] = position ?f3 + k"
    by (rule read_until_past_run)
  with gzip_end_after_decode [OF assms dec, of "length pre"] p3 h
  show "gzip_calculate_chunk engine file (length pre)
            = Inr (Some \<lparr>start_offset = length pre,
                         end_offset = length pre
                                      + (length hdr + length payload + GZIP2_FOOTER_LEN) + k\<rparr>)"
    by simp
qed

lemma stored_inflate_final_block:
  assumes "b0 AND 6 = 0" and "b0 AND 1 = 1"
    and "le_uint [l0, l1] = length data"
    and "le_uint [l0, l1] + le_uint [n0, n1] = 65535"
  shows "stored_inflate (take m (b0 # l0 # l1 # n0 # n1 # data @ rest))
           = (if m < 5 + length data then NeedInput else StreamEnd (5 + length data))"
proof (cases "m < 5")
  case True
  then consider "m = 0" | "m = 1" | "m = 2" | "m = 3" | "m = 4"
    by linarith
  then show ?thesis
    by cases (simp_all add: stored_inflate_def)
next
  case False
  then obtain m' where m: "m = Suc (Suc (Suc (Suc (Suc m'))))"
    by (intro that [of "m - 5"]) linarith
  have "stored_inflate (take m (b0 # l0 # l1 # n0 # n1 # data @ rest))
          = stored_inflate_from 0 (b0 # l0 # l1 # n0 # n1 # take m' (data @ rest))"
    by (simp add: m stored_inflate_def)
  also have "\<dots> = (if length (take m' (data @ rest)) < length data then NeedInput
                    else StreamEnd (5 + length data))"
    using assms by simp
  also have "\<dots> = (if m < 5 + length data then NeedInput else StreamEnd (5 + length data))"
    by (auto simp: m)
  finally show ?thesis .
qed

lemma gzip_example_header:
  "gzip_read_header \<lparr>content = gzip_example, position = 3\<rparr>
     = Inr (True, \<lparr>content = gzip_example, position = 13\<rparr>)"
  by (simp add: gzip_read_header_def read_def read_exact_def skip_optional_fields_def Let_def
      gzip_example_def gzip_header_example_def)

theorem gzip_chunk_end_witness:
  "gzip_calculate_chunk stored_inflate \<lparr>content = gzip_example, position = 3\<rparr> 3
     = Inr (Some \<lparr>start_offset = 3, end_offset = 3 + (10 + 7 + 8) + 5\<rparr>)"
proof -
  let ?F = "\<lparr>content = gzip_example, position = 3\<rparr>"
  let ?F1 = "\<lparr>content = gzip_example, position = 13\<rparr>"
  let ?pre = "[0xAA, 0xBB, 0xCC] :: byte list"
  let ?payload = "[0x01, 0x02, 0x00, 0xFD, 0xFF, 0x68, 0x69] :: byte list"
  let ?rest = "[0x43] :: byte list"
  have e: "\<forall>m \<le> length (?payload @ gzip_trailer_example @ replicate 5 0 @ 0x42 # ?rest).
             stored_inflate (take m (?payload @ gzip_trailer_example @ replicate 5 0 @ 0x42 # ?rest))
               = (if m < length ?payload then NeedInput else StreamEnd (length ?payload))"
    using stored_inflate_final_block [of "0x01" "0x02" "0x00" "[0x68, 0x69]" "0xFD" "0xFF" _
        "gzip_trailer_example @ replicate 5 0 @ 0x42 # ?rest"]
    by simp
  have h: "content ?F = ?pre @ gzip_header_example @ ?payload @ gzip_trailer_example
                         @ replicate 5 0 @ 0x42 # ?rest \<and>
          position ?F = length ?pre \<and> position ?F1 = length ?pre + length gzip_header_example \<and>
          length gzip_trailer_example = GZIP2_FOOTER_LEN \<and> (0x42 :: byte) \<noteq> 0 \<and>
          (\<forall>m \<le> length (?payload @ gzip_trailer_example @ replicate 5 0 @ 0x42 # ?rest).
             stored_inflate (take m (?payload @ gzip_trailer_example @ replicate 5 0 @ 0x42 # ?rest))
               = (if m < length ?payload then NeedInput else StreamEnd (length ?payload)))"
    using e
    by (simp add: gzip_example_def gzip_header_example_def gzip_trailer_example_def
        GZIP2_FOOTER_LEN_def GZIP2_CRC_LEN_def GZIP2_SIZE_LEN_def)
  from gzip_chunk_end [OF gzip_example_header, THEN conjunct2, rule_format, OF h]
  show ?thesis
    by (simp add: gzip_header_example_def GZIP2_FOOTER_LEN_def GZIP2_CRC_LEN_def
        GZIP2_SIZE_LEN_def numeral_3_eq_3)
qed

text \<open>
  Claim C3. If the two magic bytes at the cursor do not match, the calculator returns
  \<open>None\<close> and raises nothing. If the header parses and decoding the payload raises
  \<^verbatim>\<open>gzip.BadGzipFile\<close> or \<^verbatim>\<open>zlib.error\<close>, the calculator raises
  \<^verbatim>\<open>InvalidInputFormat\<close>: it returns neither \<open>None\<close> nor a chunk. Both happen: the
  decoder raises \<^verbatim>\<open>zlib.error\<close> when the engine finds the first buffer malformed and
  \<^verbatim>\<open>gzip.BadGzipFile\<close> when it finds a checksum mismatch there.
\<close>

theorem gzip_failure_kinds:
  "(take 2 (drop (position file) (content file)) \<noteq> [0x1f, 0x8b] \<longrightarrow>
      gzip_calculate_chunk engine file start = Inr None) \<and>
   (gzip_read_header file = Inr (True, file1) \<and>
    (read_until_eof engine [] file1 = Inl BadGzipFile \<or>
     read_until_eof engine [] file1 = Inl ZlibError) \<longrightarrow>
      gzip_calculate_chunk engine file start = Inl InvalidInputFormat) \<and>
   (gzip_read_header file = Inr (True, file1) \<and>
    engine (take DEFAULT_BUFFER_SIZE (drop (position file1) (content file1))) = DataError \<longrightarrow>
      read_until_eof engine [] file1 = Inl ZlibError \<and>
      gzip_calculate_chunk engine file start = Inl InvalidInputFormat) \<and>
   (gzip_read_header file = Inr (True, file1) \<and>
    engine (take DEFAULT_BUFFER_SIZE (drop (position file1) (content file1)))
      = ChecksumMismatch \<longrightarrow>
      read_until_eof engine [] file1 = Inl BadGzipFile \<and>
      gzip_calculate_chunk engine file start = Inl InvalidInputFormat)"
proof (intro conjI impI)
  assume "take 2 (drop (position file) (content file)) \<noteq> [0x1f, 0x8b]"
  from gzip_read_header_mismatch [OF this]
  show "gzip_calculate_chunk engine file start = Inr None"
    by (auto simp: gzip_calculate_chunk_def)
next
  assume "gzip_read_header file = Inr (True, file1) \<and>
    (read_until_eof engine [] file1 = Inl BadGzipFile \<or>
     read_until_eof engine [] file1 = Inl ZlibError)"
  then show "gzip_calculate_chunk engine file start = Inl InvalidInputFormat"
    by (auto simp: gzip_calculate_chunk_def)
next
  assume a: "gzip_read_header file = Inr (True, file1) \<and>
    engine (take DEFAULT_BUFFER_SIZE (drop (position file1) (content file1))) = DataError"
  then show z: "read_until_eof engine [] file1 = Inl ZlibError"
    by (subst read_until_eof.simps) (simp add: read_def Let_def)
  with a show "gzip_calculate_chunk engine file start = Inl InvalidInputFormat"
    by (simp add: gzip_calculate_chunk_def)
next
  assume a: "gzip_read_header file = Inr (True, file1) \<and>
    engine (take DEFAULT_BUFFER_SIZE (drop (position file1) (content file1)))
      = ChecksumMismatch"
  then show z: "read_until_eof engine [] file1 = Inl BadGzipFile"
    by (subst read_until_eof.simps) (simp add: read_def Let_def)
  with a show "gzip_calculate_chunk engine file start = Inl InvalidInputFormat"
    by (simp add: gzip_calculate_chunk_def)
qed

theorem gzip_failure_kinds_witness:
  "gzip_calculate_chunk stored_inflate \<lparr>content = [0x50, 0x4B, 0x03, 0x04], position = 0\<rparr> 0
     = Inr None \<and>
   read_until_eof stored_inflate [] \<lparr>content = gzip_corrupt_example, position = 10\<rparr>
     = Inl ZlibError \<and>
   gzip_calculate_chunk stored_inflate \<lparr>content = gzip_corrupt_example, position = 0\<rparr> 0
     = Inl InvalidInputFormat \<and>
   read_until_eof stored_inflate_checked [] \<lparr>content = gzip_badsize_example, position = 10\<rparr>
     = Inl BadGzipFile \<and>
   gzip_calculate_chunk stored_inflate_checked
     \<lparr>content = gzip_badsize_example, position = 0\<rparr> 0
     = Inl InvalidInputFormat"
proof -
  let ?G = "\<lparr>content = [0x50, 0x4B, 0x03, 0x04] :: byte list, position = 0\<rparr>"
  let ?F = "\<lparr>content = gzip_corrupt_example, position = 0\<rparr>"
  let ?F1 = "\<lparr>content = gzip_corrupt_example, position = 10\<rparr>"
  let ?B = "\<lparr>content = gzip_badsize_example, position = 0\<rparr>"
  let ?B1 = "\<lparr>content = gzip_badsize_example, position = 10\<rparr>"
  have 1: "take 2 (drop (position ?G) (content ?G)) \<noteq> [0x1f, 0x8b]"
    by simp
  have h: "gzip_read_header ?F = Inr (True, ?F1)"
    by (simp add: gzip_read_header_def read_def read_exact_def skip_optional_fields_def Let_def
        gzip_corrupt_example_def gzip_header_example_def)
  have d: "stored_inflate (take DEFAULT_BUFFER_SIZE (drop (position ?F1) (content ?F1))) = DataError"
    by (simp add: DEFAULT_BUFFER_SIZE_def gzip_corrupt_example_def gzip_header_example_def
        gzip_trailer_example_def stored_inflate_def)
  have k: "gzip_read_header ?B = Inr (True, ?B1)"
    by (simp add: gzip_read_header_def read_def read_exact_def skip_optional_fields_def Let_def
        gzip_badsize_example_def gzip_header_example_def)
  have m: "stored_inflate_checked (take DEFAULT_BUFFER_SIZE (drop (position ?B1) (content ?B1)))
             = ChecksumMismatch"
    by (simp add: DEFAULT_BUFFER_SIZE_def gzip_badsize_example_def gzip_header_example_def
        stored_inflate_checked_def stored_inflate_def)
  from gzip_failure_kinds [of ?G stored_inflate 0 ?F1, THEN conjunct1] 1
  have a: "gzip_calculate_chunk stored_inflate ?G 0 = Inr None"
    by blast
  from gzip_failure_kinds [of ?F stored_inflate 0 ?F1, THEN conjunct2, THEN conjunct2,
      THEN conjunct1] h d
  have b: "read_until_eof stored_inflate [] ?F1 = Inl ZlibError"
    by blast
  from gzip_failure_kinds [of ?F stored_inflate 0 ?F1, THEN conjunct2, THEN conjunct1] h b
  have b': "gzip_calculate_chunk stored_inflate ?F 0 = Inl InvalidInputFormat"
    by blast
  from gzip_failure_kinds [of ?B stored_inflate_checked 0 ?B1, THEN conjunct2, THEN conjunct2,
      THEN conjunct2] k m
  have c: "read_until_eof stored_inflate_checked [] ?B1 = Inl BadGzipFile"
    by blast
  from gzip_failure_kinds [of ?B stored_inflate_checked 0 ?B1, THEN conjunct2, THEN conjunct1]
    k c
  have c': "gzip_calculate_chunk stored_inflate_checked ?B 0 = Inl InvalidInputFormat"
    by blast
  from a b b' c c' show ?thesis by blast
qed

section \<open>Chunk bounds across the calculators\<close>

lemma guess_peb_size_positive:
  assumes "guess_peb_size file = Inr peb_size"
  shows "0 < peb_size"
proof -
  from assms have "get_intervals (iterate_patterns file UBI_EC_HEADER) \<noteq> []"
    by (auto simp: guess_peb_size_def Let_def split: if_splits)
  then have "2 \<le> length (iterate_patterns file UBI_EC_HEADER)"
    by (simp add: get_intervals_empty)
  from guess_peb_size_mode [OF this] assms show ?thesis
    by auto
qed

lemma gzip_chunk_after_start:
  assumes "gzip_calculate_chunk engine file start = Inr (Some c)"
  shows "start_offset c = start \<and> position file + 18 \<le> end_offset c"
proof -
  from assms obtain file1 where hdr: "gzip_read_header file = Inr (True, file1)"
    by (auto simp: gzip_calculate_chunk_def split: sum.splits if_splits)
  from assms hdr obtain unused file2 where
    dec: "read_until_eof engine [] file1 = Inr (unused, file2)"
    by (auto simp: gzip_calculate_chunk_def split: sum.splits error.splits)
  let ?f3 = "file2\<lparr>position := position file2 + GZIP2_FOOTER_LEN - unused\<rparr>"
  from gzip_end_after_decode [OF hdr dec, of start] assms
  have c: "c = \<lparr>start_offset = start, end_offset = read_until_past ?f3 [0]\<rparr>"
    by simp
  from read_until_eof_Inr [OF dec] have "position file1 + unused \<le> position file2"
    by auto
  with gzip_read_header_True [OF hdr] have "position file + 18 \<le> position ?f3"
    by (auto simp: GZIP2_FOOTER_LEN_def GZIP2_CRC_LEN_def GZIP2_SIZE_LEN_def)
  moreover have "position ?f3 \<le> read_until_past ?f3 [0]"
    by (simp add: read_until_past_def)
  ultimately show ?thesis
    unfolding c by simp
qed

lemma lzh_chunk_extent:
  assumes "lzh_calculate_chunk file start = Inr (Some c)"
  shows "start_offset c = start \<and> position file \<le> end_offset c \<and>
         (\<exists>header file1 level_identifier hsize checksum compressed_size.
            parse_header lzh_default_header_t LITTLE file = Inr (header, file1) \<and>
            uint_field header ''level_identifier'' = Some level_identifier \<and>
            uint_field header ''header_size'' = Some hsize \<and>
            uint_field header ''header_checksum'' = Some checksum \<and>
            uint_field header ''compressed_size'' = Some compressed_size \<and>
            (position file < end_offset c \<longleftrightarrow>
               0 < lzh_header_size level_identifier hsize checksum + compressed_size) \<and>
            (level_identifier \<noteq> 2 \<longrightarrow> position file < end_offset c))"
proof -
  from assms obtain header file1 where
    p: "parse_header lzh_default_header_t LITTLE file = Inr (header, file1)"
    by (auto simp: lzh_calculate_chunk_def split: sum.splits)
  then have l: "position file + 21 \<le> length (content file)"
    by (auto simp: parse_header_Inr lzh_default_header_t_size)
  from lzh_calculate_chunk_parsed [OF p, of start]
  obtain level_identifier hsize checksum compressed_size where
    f: "uint_field header ''level_identifier'' = Some level_identifier"
       "uint_field header ''header_size'' = Some hsize"
       "uint_field header ''header_checksum'' = Some checksum"
       "uint_field header ''compressed_size'' = Some compressed_size"
    and r: "lzh_calculate_chunk file start =
             Inr (Some \<lparr>start_offset = start,
                        end_offset =
                          (if int (length (content file))
                                - int (position file
                                       + lzh_header_size level_identifier hsize checksum
                                       + compressed_size) = 1
                           then length (content file)
                           else position file + lzh_header_size level_identifier hsize checksum
                                + compressed_size)\<rparr>)"
    by (elim exE conjE) (rule that, assumption+)
  let ?n = "lzh_header_size level_identifier hsize checksum + compressed_size"
  from r assms have c: "start_offset c = start"
    and e: "end_offset c = (if int (length (content file)) - int (position file + ?n) = 1
                            then length (content file) else position file + ?n)"
    by (auto simp: add.assoc)
  from e l have 1: "position file \<le> end_offset c"
    by (auto split: if_splits)
  from e l have 2: "position file < end_offset c \<longleftrightarrow> 0 < ?n"
    by (auto split: if_splits)
  have "0 < ?n" if "level_identifier \<noteq> 2"
    using that by (simp add: lzh_header_size_def PADDING_LEN_def)
  with 2 have 3: "level_identifier \<noteq> 2 \<longrightarrow> position file < end_offset c"
    by simp
  from p f 2 3 have "\<exists>header file1 level_identifier hsize checksum compressed_size.
            parse_header lzh_default_header_t LITTLE file = Inr (header, file1) \<and>
            uint_field header ''level_identifier'' = Some level_identifier \<and>
            uint_field header ''header_size'' = Some hsize \<and>
            uint_field header ''header_checksum'' = Some checksum \<and>
            uint_field header ''compressed_size'' = Some compressed_size \<and>
            (position file < end_offset c \<longleftrightarrow>
               0 < lzh_header_size level_identifier hsize checksum + compressed_size) \<and>
            (level_identifier \<noteq> 2 \<longrightarrow> position file < end_offset c)"
    by (intro exI [of _ header] exI [of _ file1] exI [of _ level_identifier]
        exI [of _ hsize] exI [of _ checksum] exI [of _ compressed_size] conjI) assumption+
  with c 1 show ?thesis
    by (intro conjI)
qed

lemma ntfs_chunk_after_start:
  assumes "ntfs_calculate_chunk file start = Inr (Some c)"
  shows "start_offset c = start \<and> start_offset c < end_offset c"
  using assms
  by (auto simp: ntfs_calculate_chunk_def Let_def split: sum.splits option.splits if_splits)

lemma ubifs_chunk_extent:
  assumes "ubifs_calculate_chunk file start = Inr (Some c)"
  shows "start_offset c = start \<and>
         (\<exists>sb_header file1 leb_size leb_cnt.
            parse_header ubifs_sb_node_t (get_endian file BIG_ENDIAN_MAGIC) file
              = Inr (sb_header, file1) \<and>
            uint_field sb_header ''leb_size'' = Some leb_size \<and>
            uint_field sb_header ''leb_cnt'' = Some leb_cnt \<and>
            end_offset c = start + leb_size * leb_cnt)"
  using assms
  by (auto simp: ubifs_calculate_chunk_def Let_def split: sum.splits option.splits)

lemma ubi_chunk_extent:
  assumes "ubi_calculate_chunk file start = Some (Inr (Some c))"
  shows "start_offset c = start \<and> start_offset c \<le> end_offset c \<and>
         (start_offset c < end_offset c \<longleftrightarrow> marker_at file start)"
proof -
  from assms obtain peb_size where g: "guess_peb_size file = Inr peb_size"
    by (auto simp: ubi_calculate_chunk_def split: sum.splits error.splits)
  have pos: "0 < peb_size"
    using g by (rule guess_peb_size_positive)
  from walk_ubi_returns [OF pos, of start "file"]
  obtain k where k: "walk_ubi (seek start file) peb_size = Some (start + k * peb_size)"
    "\<forall>i<k. marker_at file (start + i * peb_size)"
    "\<not> marker_at file (start + k * peb_size)"
    by blast
  from assms g k(1) have c: "c = \<lparr>start_offset = start, end_offset = start + k * peb_size\<rparr>"
    by (simp add: ubi_calculate_chunk_def)
  have "marker_at file start \<longleftrightarrow> 0 < k"
  proof (cases k)
    case 0
    with k(3) show ?thesis by simp
  next
    case (Suc j)
    with k(2) have "marker_at file (start + 0 * peb_size)"
      by blast
    with Suc show ?thesis by simp
  qed
  with pos show ?thesis
    unfolding c by simp
qed

lemma gzip_example_chunk:
  "gzip_calculate_chunk stored_inflate \<lparr>content = gzip_example, position = 3\<rparr> 3
     = Inr (Some \<lparr>start_offset = 3, end_offset = 33\<rparr>)"
proof -
  let ?F1 = "\<lparr>content = gzip_example, position = 13\<rparr>"
  have d: "read_until_eof stored_inflate [] ?F1
             = Inr (15, \<lparr>content = gzip_example, position = 35\<rparr>)"
    by (subst read_until_eof.simps)
       (simp add: read_def Let_def DEFAULT_BUFFER_SIZE_def gzip_example_def
          gzip_header_example_def gzip_trailer_example_def stored_inflate_def)
  from gzip_end_after_decode [OF gzip_example_header d, of 3]
  show ?thesis
    by (simp add: GZIP2_FOOTER_LEN_def GZIP2_CRC_LEN_def GZIP2_SIZE_LEN_def
        read_until_past_def gzip_example_def gzip_header_example_def gzip_trailer_example_def
        takeWhile_zero_run)
qed

lemma lzh_truncated_chunk:
  "lzh_calculate_chunk \<lparr>content = take 21 lzh_level0_example, position = 0\<rparr> 0
     = Inr (Some \<lparr>start_offset = 0, end_offset = 28\<rparr>)"
proof -
  let ?H = "\<lparr>field_values = decode_fields LITTLE lzh_default_header_t (take 21 lzh_level0_example),
             size_bytes = 21\<rparr>"
  have p: "parse_header lzh_default_header_t LITTLE
             \<lparr>content = take 21 lzh_level0_example, position = 0\<rparr>
             = Inr (?H, \<lparr>content = take 21 lzh_level0_example, position = 21\<rparr>)"
    by (simp add: parse_header_Inr lzh_default_header_t_size lzh_level0_example_def)
  have l: "length lzh_level0_example = 29"
    by (simp add: lzh_level0_example_def)
  from lzh_calculate_chunk_parsed [OF p, of 0] show ?thesis
    by (simp add: lzh_level0_example_fields lzh_header_size_def PADDING_LEN_def l)
qed

lemma ntfs_example_chunk:
  "ntfs_calculate_chunk \<lparr>content = ntfs_example, position = 0\<rparr> 0
     = Inr (Some \<lparr>start_offset = 0, end_offset = 8704\<rparr>)"
proof -
  have p: "parse_header ntfs_boot_t LITTLE \<lparr>content = ntfs_example, position = 0\<rparr>
     = Inr (\<lparr>field_values = decode_fields LITTLE ntfs_boot_t ntfs_example, size_bytes = 512\<rparr>,
            \<lparr>content = ntfs_example, position = 512\<rparr>)"
    by (simp add: parse_header_Inr ntfs_boot_t_size ntfs_example_def)
  have "decode_uint LITTLE (take 8 (drop 40 ntfs_example)) = 16"
    "decode_uint LITTLE (take 2 (drop 11 ntfs_example)) = 512"
    by (simp_all add: ntfs_example_def decode_uint_def)
  then show ?thesis
    by (simp add: ntfs_calculate_chunk_def p ntfs_fields len_header_def Let_def)
qed

lemma ubifs_zero_example_chunk:
  "ubifs_calculate_chunk \<lparr>content = ubifs_zero_example, position = 0\<rparr> 0
     = Inr (Some \<lparr>start_offset = 0, end_offset = 0\<rparr>)"
proof -
  let ?F = "\<lparr>content = ubifs_zero_example, position = 0\<rparr>"
  have 1: "take 4096 (drop (position ?F) (content ?F)) = ubifs_zero_example"
    by (simp add: ubifs_zero_example_def)
  have 2: "length ubifs_zero_example = 4096"
    by (simp add: ubifs_zero_example_def)
  have "decode_uint e (take 4 (drop 36 ubifs_zero_example)) = 0" for e
    by (cases e) (simp_all add: ubifs_zero_example_def decode_uint_def le_uint_zeros)
  with ubifs_calculate_chunk_block(2) [OF 1 2 refl, of 0] show ?thesis
    by simp
qed

lemma ubi_example_chunk:
  "ubi_calculate_chunk \<lparr>content = ubi_example, position = 0\<rparr> 0
     = Some (Inr (Some \<lparr>start_offset = 0, end_offset = 24\<rparr>))"
proof -
  let ?F = "\<lparr>content = ubi_example, position = 0\<rparr>"
  have g: "guess_peb_size ?F = Inr 8"
    by (simp add: guess_peb_size_def ubi_example_offsets mode_def Let_def)
  have m: "marker_at ?F 0" "marker_at ?F 8" "marker_at ?F 16" "\<not> marker_at ?F 24"
    by (simp_all add: marker_at_def UBI_EC_HEADER_def ubi_example_def)
  have "walk_ubi (seek 0 ?F) 8 = walk_ubi (seek 8 ?F) 8"
    using walk_ubi_step [of 0 ?F 8] m by simp
  also have "\<dots> = walk_ubi (seek 16 ?F) 8"
    using walk_ubi_step [of 8 ?F 8] m by simp
  also have "\<dots> = walk_ubi (seek 24 ?F) 8"
    using walk_ubi_step [of 16 ?F 8] m by simp
  also have "\<dots> = Some 24"
    using walk_ubi_step [of 24 ?F 8] m by simp
  finally show ?thesis
    by (simp add: ubi_calculate_chunk_def g)
qed

lemma gzip_truncated_chunk:
  "gzip_calculate_chunk stored_inflate \<lparr>content = gzip_truncated_example, position = 0\<rparr> 0
     = Inr (Some \<lparr>start_offset = 0, end_offset = 25\<rparr>)"
proof -
  let ?F = "\<lparr>content = gzip_truncated_example, position = 0\<rparr>"
  let ?F1 = "\<lparr>content = gzip_truncated_example, position = 10\<rparr>"
  have h: "gzip_read_header ?F = Inr (True, ?F1)"
    by (simp add: gzip_read_header_def read_def read_exact_def skip_optional_fields_def Let_def
        gzip_truncated_example_def gzip_header_example_def)
  have d: "read_until_eof stored_inflate [] ?F1
             = Inr (0, \<lparr>content = gzip_truncated_example, position = 17\<rparr>)"
    by (subst read_until_eof.simps)
       (simp add: read_def Let_def DEFAULT_BUFFER_SIZE_def gzip_truncated_example_def
          gzip_header_example_def stored_inflate_def)
  from gzip_end_after_decode [OF h d, of 0]
  show ?thesis
    by (simp add: GZIP2_FOOTER_LEN_def GZIP2_CRC_LEN_def GZIP2_SIZE_LEN_def
        read_until_past_def gzip_truncated_example_def gzip_header_example_def)
qed

lemma lzh_zero_chunk:
  "lzh_calculate_chunk \<lparr>content = lzh_zero_example, position = 0\<rparr> 0
     = Inr (Some \<lparr>start_offset = 0, end_offset = 0\<rparr>)"
proof -
  let ?H = "\<lparr>field_values = decode_fields LITTLE lzh_default_header_t lzh_zero_example,
             size_bytes = 21\<rparr>"
  have p: "parse_header lzh_default_header_t LITTLE \<lparr>content = lzh_zero_example, position = 0\<rparr>
             = Inr (?H, \<lparr>content = lzh_zero_example, position = 21\<rparr>)"
    by (simp add: parse_header_Inr lzh_default_header_t_size lzh_zero_example_def)
  have f: "uint_field ?H ''level_identifier'' = Some 2"
    "uint_field ?H ''header_size'' = Some 0"
    "uint_field ?H ''header_checksum'' = Some 0"
    "uint_field ?H ''compressed_size'' = Some 0"
    by (simp_all add: lzh_fields lzh_zero_example_def decode_uint_def)
  have l: "length lzh_zero_example = 21"
    by (simp add: lzh_zero_example_def)
  from lzh_calculate_chunk_parsed [OF p, of 0] show ?thesis
    by (simp add: f lzh_header_size_def l)
qed

lemma ubifs_be_example_chunk:
  "ubifs_calculate_chunk \<lparr>content = ubifs_be_example, position = 0\<rparr> 0
     = Inr (Some \<lparr>start_offset = 0, end_offset = 12288\<rparr>)"
proof -
  let ?F = "\<lparr>content = ubifs_be_example, position = 0\<rparr>"
  have 1: "take 4096 (drop (position ?F) (content ?F)) = ubifs_be_example"
    by (simp add: ubifs_be_example_def)
  have 2: "length ubifs_be_example = 4096"
    by (simp add: ubifs_be_example_def)
  have e: "get_endian ?F BIG_ENDIAN_MAGIC = BIG"
    by (rule get_endian_magic(1) [OF refl]) (simp add: ubifs_be_example_def)
  have "decode_uint BIG (take 4 (drop 36 ubifs_be_example)) = 4096"
    "decode_uint BIG (take 4 (drop 40 ubifs_be_example)) = 3"
    by (simp_all add: ubifs_be_example_def decode_uint_def)
  with ubifs_calculate_chunk_block(2) [OF 1 2 e, of 0] show ?thesis
    by simp
qed

lemma ubi_truncated_offsets:
  "iterate_patterns \<lparr>content = take 20 ubi_example, position = 0\<rparr> UBI_EC_HEADER = [0, 8, 16]"
  by code_simp

lemma ubi_truncated_chunk:
  "ubi_calculate_chunk \<lparr>content = take 20 ubi_example, position = 0\<rparr> 0
     = Some (Inr (Some \<lparr>start_offset = 0, end_offset = 24\<rparr>))"
proof -
  let ?F = "\<lparr>content = take 20 ubi_example, position = 0\<rparr>"
  have g: "guess_peb_size ?F = Inr 8"
    by (simp add: guess_peb_size_def ubi_truncated_offsets mode_def Let_def)
  have m: "marker_at ?F 0" "marker_at ?F 8" "marker_at ?F 16" "\<not> marker_at ?F 24"
    by (simp_all add: marker_at_def UBI_EC_HEADER_def ubi_example_def)
  have "walk_ubi (seek 0 ?F) 8 = walk_ubi (seek 8 ?F) 8"
    using walk_ubi_step [of 0 ?F 8] m by simp
  also have "\<dots> = walk_ubi (seek 16 ?F) 8"
    using walk_ubi_step [of 8 ?F 8] m by simp
  also have "\<dots> = walk_ubi (seek 24 ?F) 8"
    using walk_ubi_step [of 16 ?F 8] m by simp
  also have "\<dots> = Some 24"
    using walk_ubi_step [of 24 ?F 8] m by simp
  finally show ?thesis
    by (simp add: ubi_calculate_chunk_def g)
qed

lemma ubi_unaligned_chunk:
  "ubi_calculate_chunk \<lparr>content = ubi_example, position = 0\<rparr> 4
     = Some (Inr (Some \<lparr>start_offset = 4, end_offset = 4\<rparr>))"
proof -
  let ?F = "\<lparr>content = ubi_example, position = 0\<rparr>"
  have g: "guess_peb_size ?F = Inr 8"
    by (simp add: guess_peb_size_def ubi_example_offsets mode_def Let_def)
  have m: "\<not> marker_at ?F 4"
    by (simp add: marker_at_def UBI_EC_HEADER_def ubi_example_def)
  have "walk_ubi (seek 4 ?F) 8 = Some 4"
    using walk_ubi_step [of 4 ?F 8] m by simp
  then show ?thesis
    by (simp add: ubi_calculate_chunk_def g)
qed

lemma example_sizes:
  "length gzip_truncated_example = 17"
  "length (take 21 lzh_level0_example) = 21"
  "length ntfs_example = 512"
  "length ubifs_be_example = 4096"
  "length (take 20 ubi_example) = 20"
  by (simp_all add: gzip_truncated_example_def gzip_header_example_def lzh_level0_example_def
      ntfs_example_def ubifs_be_example_def ubi_example_def)

text \<open>
  Claim C1 says that every returned chunk has \<open>end_offset > start_offset\<close> and
  \<open>end_offset \<le> source length\<close>. No calculator compares the end offset with the length
  of the source, and each of the five returns a chunk that ends beyond it: a gzip member cut
  off before its trailer (25 in 17 bytes), an LZH file cut off after the header (28 in 21),
  an NTFS boot sector alone (8704 in 512), a UBIFS superblock alone (12288 in 4096), a UBI
  image cut off inside its last block (24 in 20). Only the NTFS calculator rejects an empty
  extent: a level-2 LZH header with sizes of zero and a UBIFS superblock with a geometry of
  zeros give chunks that end where they start, and so does the UBI calculator when it is
  called at an offset where no marker stands.
\<close>

theorem chunk_bounds_counterexample:
  "gzip_calculate_chunk stored_inflate \<lparr>content = gzip_truncated_example, position = 0\<rparr> 0
     = Inr (Some \<lparr>start_offset = 0, end_offset = 25\<rparr>) \<and>
   \<not> end_offset \<lparr>start_offset = 0, end_offset = 25\<rparr> \<le> length gzip_truncated_example \<and>
   lzh_calculate_chunk \<lparr>content = take 21 lzh_level0_example, position = 0\<rparr> 0
     = Inr (Some \<lparr>start_offset = 0, end_offset = 28\<rparr>) \<and>
   \<not> end_offset \<lparr>start_offset = 0, end_offset = 28\<rparr>
       \<le> length (take 21 lzh_level0_example) \<and>
   ntfs_calculate_chunk \<lparr>content = ntfs_example, position = 0\<rparr> 0
     = Inr (Some \<lparr>start_offset = 0, end_offset = 8704\<rparr>) \<and>
   \<not> end_offset \<lparr>start_offset = 0, end_offset = 8704\<rparr> \<le> length ntfs_example \<and>
   ubifs_calculate_chunk \<lparr>content = ubifs_be_example, position = 0\<rparr> 0
     = Inr (Some \<lparr>start_offset = 0, end_offset = 12288\<rparr>) \<and>
   \<not> end_offset \<lparr>start_offset = 0, end_offset = 12288\<rparr> \<le> length ubifs_be_example \<and>
   ubi_calculate_chunk \<lparr>content = take 20 ubi_example, position = 0\<rparr> 0
     = Some (Inr (Some \<lparr>start_offset = 0, end_offset = 24\<rparr>)) \<and>
   \<not> end_offset \<lparr>start_offset = 0, end_offset = 24\<rparr> \<le> length (take 20 ubi_example) \<and>
   lzh_calculate_chunk \<lparr>content = lzh_zero_example, position = 0\<rparr> 0
     = Inr (Some \<lparr>start_offset = 0, end_offset = 0\<rparr>) \<and>
   ubifs_calculate_chunk \<lparr>content = ubifs_zero_example, position = 0\<rparr> 0
     = Inr (Some \<lparr>start_offset = 0, end_offset = 0\<rparr>) \<and>
   \<not> start_offset \<lparr>start_offset = 0, end_offset = 0\<rparr>
       < end_offset \<lparr>start_offset = 0, end_offset = 0\<rparr> \<and>
   ubi_calculate_chunk \<lparr>content = ubi_example, position = 0\<rparr> 4
     = Some (Inr (Some \<lparr>start_offset = 4, end_offset = 4\<rparr>)) \<and>
   \<not> start_offset \<lparr>start_offset = 4, end_offset = 4\<rparr>
       < end_offset \<lparr>start_offset = 4, end_offset = 4\<rparr>"
  by (simp add: gzip_truncated_chunk lzh_truncated_chunk ntfs_example_chunk
      ubifs_be_example_chunk ubi_truncated_chunk lzh_zero_chunk ubifs_zero_example_chunk
      ubi_unaligned_chunk example_sizes)

text \<open>
  Claim C1, amended. Every returned chunk starts at the candidate offset and does not end
  before it; for gzip and LZH the calculator is called with the cursor at the candidate
  offset, from which they measure. \<open>end_offset > start_offset\<close> holds for every gzip chunk
  and every NTFS chunk; for an LZH chunk exactly when header size plus compressed size is
  not 0, so always at a level other than 2; for a UBIFS chunk, which ends at
  \<open>start + leb_size * leb_cnt\<close>, exactly when that product is not 0; for a UBI chunk
  exactly when the marker stands at the start offset, as it does at every candidate. The
  end offset is not bounded by the source length.
\<close>

theorem chunk_bounds:
  "(gzip_calculate_chunk engine file start = Inr (Some c) \<and> position file = start \<longrightarrow>
      start_offset c = start \<and> start_offset c < end_offset c) \<and>
   (lzh_calculate_chunk file start = Inr (Some c) \<and> position file = start \<longrightarrow>
      start_offset c = start \<and> start_offset c \<le> end_offset c \<and>
      (\<exists>header file1 level_identifier hsize checksum compressed_size.
         parse_header lzh_default_header_t LITTLE file = Inr (header, file1) \<and>
         uint_field header ''level_identifier'' = Some level_identifier \<and>
         uint_field header ''header_size'' = Some hsize \<and>
         uint_field header ''header_checksum'' = Some checksum \<and>
         uint_field header ''compressed_size'' = Some compressed_size \<and>
         (start_offset c < end_offset c \<longleftrightarrow>
            0 < lzh_header_size level_identifier hsize checksum + compressed_size) \<and>
         (level_identifier \<noteq> 2 \<longrightarrow> start_offset c < end_offset c))) \<and>
   (ntfs_calculate_chunk file start = Inr (Some c) \<longrightarrow>
      start_offset c = start \<and> start_offset c < end_offset c) \<and>
   (ubifs_calculate_chunk file start = Inr (Some c) \<longrightarrow>
      start_offset c = start \<and> start_offset c \<le> end_offset c \<and>
      (\<exists>sb_header file1 leb_size leb_cnt.
         parse_header ubifs_sb_node_t (get_endian file BIG_ENDIAN_MAGIC) file
           = Inr (sb_header, file1) \<and>
         uint_field sb_header ''leb_size'' = Some leb_size \<and>
         uint_field sb_header ''leb_cnt'' = Some leb_cnt \<and>
         end_offset c = start + leb_size * leb_cnt \<and>
         (start_offset c < end_offset c \<longleftrightarrow> 0 < leb_size * leb_cnt))) \<and>
   (ubi_calculate_chunk file start = Some (Inr (Some c)) \<longrightarrow>
      start_offset c = start \<and> start_offset c \<le> end_offset c \<and>
      (start_offset c < end_offset c \<longleftrightarrow> marker_at file start))"
proof (intro conjI impI)
  assume "gzip_calculate_chunk engine file start = Inr (Some c) \<and> position file = start"
  with gzip_chunk_after_start [of engine "file" start c]
  show "start_offset c = start" "start_offset c < end_offset c"
    by auto
next
  assume a: "lzh_calculate_chunk file start = Inr (Some c) \<and> position file = start"
  then have p: "position file = start_offset c"
    using lzh_chunk_extent [of "file" start c] by simp
  from a lzh_chunk_extent [of "file" start c]
  show "start_offset c = start" "start_offset c \<le> end_offset c"
    by auto
  from a lzh_chunk_extent [of "file" start c]
  show "\<exists>header file1 level_identifier hsize checksum compressed_size.
         parse_header lzh_default_header_t LITTLE file = Inr (header, file1) \<and>
         uint_field header ''level_identifier'' = Some level_identifier \<and>
         uint_field header ''header_size'' = Some hsize \<and>
         uint_field header ''header_checksum'' = Some checksum \<and>
         uint_field header ''compressed_size'' = Some compressed_size \<and>
         (start_offset c < end_offset c \<longleftrightarrow>
            0 < lzh_header_size level_identifier hsize checksum + compressed_size) \<and>
         (level_identifier \<noteq> 2 \<longrightarrow> start_offset c < end_offset c)"
    unfolding p by blast
next
  assume "ntfs_calculate_chunk file start = Inr (Some c)"
  then show "start_offset c = start" "start_offset c < end_offset c"
    by (auto dest: ntfs_chunk_after_start)
next
  assume a: "ubifs_calculate_chunk file start = Inr (Some c)"
  from ubifs_chunk_extent [OF a] obtain sb_header file1 leb_size leb_cnt where
    s: "start_offset c = start"
    and f: "parse_header ubifs_sb_node_t (get_endian file BIG_ENDIAN_MAGIC) file
              = Inr (sb_header, file1)"
       "uint_field sb_header ''leb_size'' = Some leb_size"
       "uint_field sb_header ''leb_cnt'' = Some leb_cnt"
    and e: "end_offset c = start + leb_size * leb_cnt"
    by (elim exE conjE) (rule that, assumption+)
  from s show "start_offset c = start" .
  from s e show "start_offset c \<le> end_offset c"
    by simp
  from s e have "start_offset c < end_offset c \<longleftrightarrow> 0 < leb_size * leb_cnt"
    by simp
  with f e show "\<exists>sb_header file1 leb_size leb_cnt.
         parse_header ubifs_sb_node_t (get_endian file BIG_ENDIAN_MAGIC) file
           = Inr (sb_header, file1) \<and>
         uint_field sb_header ''leb_size'' = Some leb_size \<and>
         uint_field sb_header ''leb_cnt'' = Some leb_cnt \<and>
         end_offset c = start + leb_size * leb_cnt \<and>
         (start_offset c < end_offset c \<longleftrightarrow> 0 < leb_size * leb_cnt)"
    by (intro exI [of _ sb_header] exI [of _ file1] exI [of _ leb_size] exI [of _ leb_cnt]
        conjI) assumption+
next
  assume a: "ubi_calculate_chunk file start = Some (Inr (Some c))"
  from ubi_chunk_extent [OF a]
  show "start_offset c = start" "start_offset c \<le> end_offset c"
    "start_offset c < end_offset c \<longleftrightarrow> marker_at file start"
    by blast+
qed

theorem chunk_bounds_witness:
  "(gzip_calculate_chunk stored_inflate \<lparr>content = gzip_example, position = 3\<rparr> 3
      = Inr (Some \<lparr>start_offset = 3, end_offset = 33\<rparr>) \<and>
    position \<lparr>content = gzip_example, position = 3\<rparr> = 3) \<and>
   (start_offset \<lparr>start_offset = 3, end_offset = 33\<rparr> = 3 \<and>
    start_offset \<lparr>start_offset = 3, end_offset = 33\<rparr>
      < end_offset \<lparr>start_offset = 3, end_offset = 33\<rparr>) \<and>
   (lzh_calculate_chunk \<lparr>content = take 21 lzh_level0_example, position = 0\<rparr> 0
      = Inr (Some \<lparr>start_offset = 0, end_offset = 28\<rparr>) \<and>
    position \<lparr>content = take 21 lzh_level0_example, position = 0\<rparr> = 0) \<and>
   (start_offset \<lparr>start_offset = 0, end_offset = 28\<rparr> = 0 \<and>
    start_offset \<lparr>start_offset = 0, end_offset = 28\<rparr>
      \<le> end_offset \<lparr>start_offset = 0, end_offset = 28\<rparr>) \<and>
   ntfs_calculate_chunk \<lparr>content = ntfs_example, position = 0\<rparr> 0
      = Inr (Some \<lparr>start_offset = 0, end_offset = 8704\<rparr>) \<and>
   (start_offset \<lparr>start_offset = 0, end_offset = 8704\<rparr> = 0 \<and>
    start_offset \<lparr>start_offset = 0, end_offset = 8704\<rparr>
      < end_offset \<lparr>start_offset = 0, end_offset = 8704\<rparr>) \<and>
   ubifs_calculate_chunk \<lparr>content = ubifs_zero_example, position = 0\<rparr> 0
      = Inr (Some \<lparr>start_offset = 0, end_offset = 0\<rparr>) \<and>
   (start_offset \<lparr>start_offset = 0, end_offset = 0\<rparr> = 0 \<and>
    start_offset \<lparr>start_offset = 0, end_offset = 0\<rparr>
      \<le> end_offset \<lparr>start_offset = 0, end_offset = 0\<rparr>) \<and>
   ubi_calculate_chunk \<lparr>content = ubi_example, position = 0\<rparr> 0
      = Some (Inr (Some \<lparr>start_offset = 0, end_offset = 24\<rparr>)) \<and>
   marker_at \<lparr>content = ubi_example, position = 0\<rparr> 0 \<and>
   (start_offset \<lparr>start_offset = 0, end_offset = 24\<rparr> = 0 \<and>
    start_offset \<lparr>start_offset = 0, end_offset = 24\<rparr>
      < end_offset \<lparr>start_offset = 0, end_offset = 24\<rparr>)"
proof -
  have h1: "gzip_calculate_chunk stored_inflate \<lparr>content = gzip_example, position = 3\<rparr> 3
      = Inr (Some \<lparr>start_offset = 3, end_offset = 33\<rparr>) \<and>
    position \<lparr>content = gzip_example, position = 3\<rparr> = 3"
    by (simp add: gzip_example_chunk)
  have h2: "lzh_calculate_chunk \<lparr>content = take 21 lzh_level0_example, position = 0\<rparr> 0
      = Inr (Some \<lparr>start_offset = 0, end_offset = 28\<rparr>) \<and>
    position \<lparr>content = take 21 lzh_level0_example, position = 0\<rparr> = 0"
    by (simp add: lzh_truncated_chunk)
  have m: "marker_at \<lparr>content = ubi_example, position = 0\<rparr> 0"
    by (simp add: marker_at_def UBI_EC_HEADER_def ubi_example_def)
  note c1 = chunk_bounds [THEN conjunct1, rule_format, OF h1]
  note c2 = chunk_bounds [THEN conjunct2, THEN conjunct1, rule_format, OF h2]
  note c3 = chunk_bounds [THEN conjunct2, THEN conjunct2, THEN conjunct1, rule_format,
      OF ntfs_example_chunk]
  note c4 = chunk_bounds [THEN conjunct2, THEN conjunct2, THEN conjunct2, THEN conjunct1,
      rule_format, OF ubifs_zero_example_chunk]
  note c5 = chunk_bounds [THEN conjunct2, THEN conjunct2, THEN conjunct2, THEN conjunct2,
      rule_format, OF ubi_example_chunk]
  note s5 = c5 [THEN conjunct2, THEN conjunct2, THEN iffD2, OF m]
  show ?thesis
    by (intro conjI h1 [THEN conjunct1] h1 [THEN conjunct2] h2 [THEN conjunct1]
        h2 [THEN conjunct2] c1 [THEN conjunct1] c1 [THEN conjunct2] c2 [THEN conjunct1]
        c2 [THEN conjunct2, THEN conjunct1] c3 [THEN conjunct1] c3 [THEN conjunct2]
        c4 [THEN conjunct1] c4 [THEN conjunct2, THEN conjunct1] c5 [THEN conjunct1] s5 m
        ntfs_example_chunk ubifs_zero_example_chunk ubi_example_chunk)
qed

end
